theory Spec2Isabelle
  imports Complex_Main "HOL-Library.Sublist"
begin

section \<open>The game state of \<open>src/Game.tsx\<close>\<close>

text \<open>
  The component \<open>Game\<close> keeps its simulation state in React refs (the player mesh, the
  three mesh arrays, the held keys), in React state (\<open>score\<close>, \<open>lives\<close>, \<open>gameOver\<close>,
  \<open>canvasSize\<close>) and in two variables of the effect closure (\<open>explosions\<close>, \<open>running\<close>).
  The model threads all of it through one record.

  JavaScript numbers are IEEE doubles; the model computes with \<open>real\<close>, so it describes the
  program up to rounding. Rendering (the scene graph, wings, cannons, flame, cracks, stars),
  audio and the stored high score are not part of the record: the simulation writes to them
  and never reads them back. What is kept of the scene is whether \<open>sceneRef.current\<close> is
  set, because the code guards on it and dereferences it.
\<close>

subsection \<open>Constants\<close>

definition PLAYER_WIDTH :: real where "PLAYER_WIDTH = 0.5"
definition PLAYER_HEIGHT :: real where "PLAYER_HEIGHT = 1"

definition BULLET_WIDTH :: real where "BULLET_WIDTH = 0.3"
definition BULLET_HEIGHT :: real where "BULLET_HEIGHT = 0.8"
definition BULLET_SPEED :: real where "BULLET_SPEED = 0.2"

definition ENEMY_BULLET_WIDTH :: real where "ENEMY_BULLET_WIDTH = 0.25"
definition ENEMY_BULLET_HEIGHT :: real where "ENEMY_BULLET_HEIGHT = 0.6"
definition ENEMY_BULLET_SPEED :: real where "ENEMY_BULLET_SPEED = 0.08"

definition ENEMY_WIDTH :: real where "ENEMY_WIDTH = 0.5"
definition ENEMY_HEIGHT :: real where "ENEMY_HEIGHT = 0.9"
definition ENEMY_SPEED :: real where "ENEMY_SPEED = 0.04"

definition speed :: real where "speed = 0.15"
definition viewHeight :: real where "viewHeight = 10"

subsection \<open>Data\<close>

text \<open>
  A \<open>THREE.Mesh\<close>, reduced to the x and y of its \<open>position\<close>. The z coordinate is assigned
  once for the draw order and never read. No mesh is ever stored in two arrays, so a mesh
  can be identified with its entry in the list that holds it.
\<close>

datatype Mesh = Mesh (posX: real) (posY: real)

record Move =
  left :: bool
  right :: bool
  up :: bool
  down :: bool

record Explosion =
  mesh :: Mesh
  timer :: real

record CanvasSize =
  width :: nat
  height :: nat

record KeyboardEvent =
  key :: string
  code :: string

record Game =
  sceneRef :: bool
  playerRef :: "Mesh option"
  bulletsRef :: "Mesh list"
  enemiesRef :: "Mesh list"
  enemyBulletsRef :: "Mesh list"
  moveRef :: Move
  explosions :: "Explosion list"
  running :: bool
  score :: int
  lives :: int
  gameOver :: bool
  canvasSize :: CanvasSize

text \<open>The state of the component before its first effect has run (lines 10--45).\<close>

definition noMove :: Move where
  "noMove = \<lparr>left = False, right = False, up = False, down = False\<rparr>"

definition initial :: "CanvasSize \<Rightarrow> Game" where
  "initial c =
     \<lparr>sceneRef = False, playerRef = None, bulletsRef = [], enemiesRef = [],
      enemyBulletsRef = [], moveRef = noMove, explosions = [], running = False,
      score = 0, lives = 3, gameOver = False, canvasSize = c\<rparr>"

subsection \<open>Viewport\<close>

text \<open>
  Lines 101--103 and 371--372. For \<open>height c = 0\<close> JavaScript computes \<open>Infinity\<close> or
  \<open>NaN\<close>, which \<open>real\<close> does not have (HOL gives \<open>x / 0 = 0\<close>); the model is meant
  for canvases of positive height.
\<close>

definition viewWidth :: "CanvasSize \<Rightarrow> real" where
  "viewWidth c = viewHeight * (real (width c) / real (height c))"

definition leftBound :: "CanvasSize \<Rightarrow> real" where
  "leftBound c = - viewWidth c / 2 + PLAYER_WIDTH / 2"

definition rightBound :: "CanvasSize \<Rightarrow> real" where
  "rightBound c = viewWidth c / 2 - PLAYER_WIDTH / 2"

subsection \<open>Helpers shared by the loops\<close>

text \<open>\<open>xs.splice(i, 1)\<close>: drop the element at index \<open>i\<close>; nothing happens past the end.\<close>

definition splice1 :: "nat \<Rightarrow> 'a list \<Rightarrow> 'a list" where
  "splice1 i xs = take i xs @ drop (Suc i) xs"

text \<open>
  The inline box test of lines 559--564, 608--613 and 648--653; \<open>w\<close> and \<open>h\<close> are the two
  half sums of extents the call site writes out.
\<close>

definition overlap :: "real \<Rightarrow> real \<Rightarrow> Mesh \<Rightarrow> Mesh \<Rightarrow> bool" where
  "overlap w h a b \<longleftrightarrow> \<bar>posX a - posX b\<bar> < w \<and> \<bar>posY a - posY b\<bar> < h"

text \<open>
  \<open>for (let i = n - 1; i >= 0; i--) body\<close>, started as \<open>forDown n body\<close>. A body that
  throws (\<open>None\<close>) ends the loop.
\<close>

fun forDown :: "nat \<Rightarrow> (nat \<Rightarrow> 's \<Rightarrow> 's option) \<Rightarrow> 's \<Rightarrow> 's option" where
  "forDown 0 body s = Some s"
| "forDown (Suc i) body s =
     (case body i s of None \<Rightarrow> None | Some s' \<Rightarrow> forDown i body s')"

text \<open>
  The updater passed to \<open>setLives\<close> at lines 630--633 and 670--673:
  \<open>(l) => { if (l <= 1) setGameOver(true); return l - 1 }\<close>. React applies queued
  updaters one after the other, each on the result of the one before.
\<close>

definition loseLife :: "Game \<Rightarrow> Game" where
  "loseLife g = g\<lparr>gameOver := (gameOver g \<or> lives g \<le> 1), lives := lives g - 1\<rparr>"

section \<open>Event handlers\<close>

text \<open>\<open>handleRestart\<close>, lines 53--57.\<close>

definition handleRestart :: "Game \<Rightarrow> Game" where
  "handleRestart g = g\<lparr>score := 0, lives := 3, gameOver := False\<rparr>"

text \<open>\<open>shoot\<close>, lines 377--427. The three bullets are pushed in the order left, right, centre.\<close>

definition leftBullet :: "Mesh \<Rightarrow> Mesh" where
  "leftBullet player =
     Mesh (posX player - PLAYER_WIDTH * 0.75 + - PLAYER_WIDTH * 0.4)
          (posY player - PLAYER_HEIGHT * 0.1 - PLAYER_HEIGHT * 0.6 + PLAYER_HEIGHT * 0.5)"

definition rightBullet :: "Mesh \<Rightarrow> Mesh" where
  "rightBullet player =
     Mesh (posX player + PLAYER_WIDTH * 0.75 + PLAYER_WIDTH * 0.4)
          (posY player - PLAYER_HEIGHT * 0.1 - PLAYER_HEIGHT * 0.6 + PLAYER_HEIGHT * 0.5)"

definition centerBullet :: "Mesh \<Rightarrow> Mesh" where
  "centerBullet player =
     Mesh (posX player) (posY player + PLAYER_HEIGHT / 2 + BULLET_HEIGHT / 2)"

definition shoot :: "Game \<Rightarrow> Game" where
  "shoot g =
     (if \<not> sceneRef g then g
      else case playerRef g of
        None \<Rightarrow> g
      | Some player \<Rightarrow>
          g\<lparr>bulletsRef := bulletsRef g @ [leftBullet player, rightBullet player, centerBullet player]\<rparr>)"

text \<open>\<open>onKeyDown\<close> and \<open>onKeyUp\<close>, lines 429--452.\<close>

definition setKeys :: "bool \<Rightarrow> KeyboardEvent \<Rightarrow> Move \<Rightarrow> Move" where
  "setKeys v e m =
     (let m1 = (if key e = ''ArrowLeft'' \<or> key e = ''a'' \<or> key e = ''A'' then m\<lparr>left := v\<rparr> else m);
          m2 = (if key e = ''ArrowRight'' \<or> key e = ''d'' \<or> key e = ''D'' then m1\<lparr>right := v\<rparr> else m1);
          m3 = (if key e = ''ArrowUp'' \<or> key e = ''w'' \<or> key e = ''W'' then m2\<lparr>up := v\<rparr> else m2)
      in (if key e = ''ArrowDown'' \<or> key e = ''s'' \<or> key e = ''S'' then m3\<lparr>down := v\<rparr> else m3))"

definition onKeyDown :: "KeyboardEvent \<Rightarrow> Game \<Rightarrow> Game" where
  "onKeyDown e g =
     (let g1 = g\<lparr>moveRef := setKeys True e (moveRef g)\<rparr>
      in if key e = '' '' \<or> code e = ''Space'' then shoot g1 else g1)"

definition onKeyUp :: "KeyboardEvent \<Rightarrow> Game \<Rightarrow> Game" where
  "onKeyUp e g = g\<lparr>moveRef := setKeys False e (moveRef g)\<rparr>"

section \<open>Timers\<close>

text \<open>
  The callback of \<open>enemyInterval\<close>, lines 313--331; \<open>r\<close> is the value \<open>Math.random()\<close>
  returns, a number in \<open>[0, 1)\<close>. The \<open>leftBound\<close> and \<open>rightBound\<close> of this callback are
  its own, built from \<open>ENEMY_WIDTH\<close>.
\<close>

definition enemyInterval :: "real \<Rightarrow> Game \<Rightarrow> Game" where
  "enemyInterval r g =
     (if \<not> sceneRef g then g
      else
        let lb = - viewWidth (canvasSize g) / 2 + ENEMY_WIDTH / 2;
            rb = viewWidth (canvasSize g) / 2 - ENEMY_WIDTH / 2
        in g\<lparr>enemiesRef := enemiesRef g @ [Mesh (r * (rb - lb) + lb) (5 + ENEMY_HEIGHT / 2)]\<rparr>)"

text \<open>
  The callback of \<open>enemyShootInterval\<close>, lines 334--366. \<open>enemies[k]\<close> is \<open>undefined\<close>
  outside the array, which the test \<open>randomEnemy && ...\<close> lets through as "no shot".
\<close>

definition randomEnemy :: "real \<Rightarrow> Mesh list \<Rightarrow> Mesh option" where
  "randomEnemy r enemies =
     (let k = \<lfloor>r * real (length enemies)\<rfloor>
      in if 0 \<le> k \<and> k < int (length enemies) then Some (enemies ! nat k) else None)"

definition enemyShootInterval :: "real \<Rightarrow> Game \<Rightarrow> Game" where
  "enemyShootInterval r g =
     (if \<not> sceneRef g \<or> length (enemiesRef g) = 0 then g
      else case randomEnemy r (enemiesRef g) of
        None \<Rightarrow> g
      | Some e \<Rightarrow>
          if posY e < 4
          then g\<lparr>enemyBulletsRef := enemyBulletsRef g @
                   [Mesh (posX e) (posY e - ENEMY_HEIGHT / 2 - ENEMY_BULLET_HEIGHT / 2)]\<rparr>
          else g)"

section \<open>The frame: \<open>animate\<close>\<close>

subsection \<open>Player movement, lines 463--477\<close>

definition movePlayer :: "Move \<Rightarrow> CanvasSize \<Rightarrow> Mesh \<Rightarrow> Mesh" where
  "movePlayer m c p =
     (let x1 = (if left m then posX p - speed else posX p);
          x2 = (if right m then x1 + speed else x1);
          y1 = (if up m then posY p + speed else posY p);
          y2 = (if down m then y1 - speed else y1);
          x3 = max (leftBound c) (min (rightBound c) x2);
          topBound = viewHeight / 2 - PLAYER_HEIGHT / 2;
          bottomBound = - viewHeight / 2 + PLAYER_HEIGHT / 2
      in Mesh x3 (max bottomBound (min topBound y2)))"

subsection \<open>Player bullets, lines 548--595\<close>

definition moveBullet :: "Mesh \<Rightarrow> Mesh" where
  "moveBullet b = Mesh (posX b) (posY b + BULLET_SPEED)"

definition bulletHits :: "Mesh \<Rightarrow> Mesh \<Rightarrow> bool" where
  "bulletHits b e = overlap ((BULLET_WIDTH + ENEMY_WIDTH) / 2) ((BULLET_HEIGHT + ENEMY_HEIGHT) / 2) b e"

text \<open>
  The inner loop over \<open>j\<close>, for the bullet at index \<open>i\<close>; \<open>enemiesScan i n\<close> is the loop
  about to test index \<open>n - 1\<close>. A match ends it (\<open>break\<close>). Reading \<open>.position\<close> of an
  array slot that does not exist, or calling a method of a \<open>sceneRef.current\<close> that is
  null, throws a TypeError: the result \<open>None\<close>.
\<close>

fun enemiesScan :: "nat \<Rightarrow> nat \<Rightarrow> Game \<Rightarrow> Game option" where
  "enemiesScan i 0 g = Some g"
| "enemiesScan i (Suc j) g =
     (if length (bulletsRef g) \<le> i \<or> length (enemiesRef g) \<le> j then None
      else
        let b = bulletsRef g ! i; e = enemiesRef g ! j
        in if bulletHits b e
           then (if \<not> sceneRef g then None
                 else Some (g\<lparr>explosions := explosions g @ [\<lparr>mesh = e, timer = 0.35\<rparr>],
                              bulletsRef := splice1 i (bulletsRef g),
                              enemiesRef := splice1 j (enemiesRef g),
                              score := score g + 1\<rparr>))
           else enemiesScan i j g)"

definition bulletsBody :: "nat \<Rightarrow> Game \<Rightarrow> Game option" where
  "bulletsBody i g =
     (if length (bulletsRef g) \<le> i then None
      else
        let g1 = g\<lparr>bulletsRef := (bulletsRef g)[i := moveBullet (bulletsRef g ! i)]\<rparr>
        in if posY (bulletsRef g1 ! i) > 5 + BULLET_HEIGHT
           then (if \<not> sceneRef g1 then None
                 else Some (g1\<lparr>bulletsRef := splice1 i (bulletsRef g1)\<rparr>))
           else enemiesScan i (length (enemiesRef g1)) g1)"

definition updateBullets :: "Game \<Rightarrow> Game option" where
  "updateBullets g = forDown (length (bulletsRef g)) bulletsBody g"

subsection \<open>Enemy bullets, lines 597--641\<close>

definition moveEnemyBullet :: "Mesh \<Rightarrow> Mesh" where
  "moveEnemyBullet b = Mesh (posX b) (posY b - ENEMY_BULLET_SPEED)"

definition enemyBulletHits :: "Mesh \<Rightarrow> Mesh \<Rightarrow> bool" where
  "enemyBulletHits eb p =
     overlap ((ENEMY_BULLET_WIDTH + PLAYER_WIDTH) / 2) ((ENEMY_BULLET_HEIGHT + PLAYER_HEIGHT) / 2) eb p"

definition enemyBulletsBody :: "nat \<Rightarrow> Game \<Rightarrow> Game option" where
  "enemyBulletsBody i g =
     (if length (enemyBulletsRef g) \<le> i then None
      else
        let g1 = g\<lparr>enemyBulletsRef := (enemyBulletsRef g)[i := moveEnemyBullet (enemyBulletsRef g ! i)]\<rparr>
        in if posY (enemyBulletsRef g1 ! i) < - 5 - ENEMY_BULLET_HEIGHT
           then (if \<not> sceneRef g1 then None
                 else Some (g1\<lparr>enemyBulletsRef := splice1 i (enemyBulletsRef g1)\<rparr>))
           else case playerRef g1 of
             None \<Rightarrow> None
           | Some p \<Rightarrow>
               if enemyBulletHits (enemyBulletsRef g1 ! i) p
               then (if \<not> sceneRef g1 then None
                     else Some (loseLife
                            (g1\<lparr>explosions := explosions g1 @ [\<lparr>mesh = p, timer = 0.5\<rparr>],
                                enemyBulletsRef := splice1 i (enemyBulletsRef g1)\<rparr>)))
               else Some g1)"

definition updateEnemyBullets :: "Game \<Rightarrow> Game option" where
  "updateEnemyBullets g = forDown (length (enemyBulletsRef g)) enemyBulletsBody g"

subsection \<open>Enemies, lines 642--686\<close>

definition moveEnemy :: "Mesh \<Rightarrow> Mesh" where
  "moveEnemy e = Mesh (posX e) (posY e - ENEMY_SPEED)"

definition enemyHits :: "Mesh \<Rightarrow> Mesh \<Rightarrow> bool" where
  "enemyHits e p = overlap ((ENEMY_WIDTH + PLAYER_WIDTH) / 2) ((ENEMY_HEIGHT + PLAYER_HEIGHT) / 2) e p"

definition enemiesBody :: "nat \<Rightarrow> Game \<Rightarrow> Game option" where
  "enemiesBody i g =
     (if length (enemiesRef g) \<le> i then None
      else
        let g1 = g\<lparr>enemiesRef := (enemiesRef g)[i := moveEnemy (enemiesRef g ! i)]\<rparr>
        in case playerRef g1 of
             None \<Rightarrow> None
           | Some p \<Rightarrow>
               if enemyHits (enemiesRef g1 ! i) p
               then (if \<not> sceneRef g1 then None
                     else Some (loseLife
                            (g1\<lparr>explosions := explosions g1 @ [\<lparr>mesh = p, timer = 0.5\<rparr>],
                                enemiesRef := splice1 i (enemiesRef g1)\<rparr>)))
               else if posY (enemiesRef g1 ! i) < - 5 - ENEMY_HEIGHT
               then (if \<not> sceneRef g1 then None
                     else Some (g1\<lparr>enemiesRef := splice1 i (enemiesRef g1)\<rparr>))
               else Some g1)"

definition updateEnemies :: "Game \<Rightarrow> Game option" where
  "updateEnemies g = forDown (length (enemiesRef g)) enemiesBody g"

subsection \<open>Explosions, lines 687--694\<close>

definition explosionsBody :: "nat \<Rightarrow> Game \<Rightarrow> Game option" where
  "explosionsBody i g =
     (if length (explosions g) \<le> i then None
      else
        let x = explosions g ! i;
            g1 = g\<lparr>explosions := (explosions g)[i := x\<lparr>timer := timer x - 1 / 60\<rparr>]\<rparr>
        in if timer (explosions g1 ! i) \<le> 0
           then (if \<not> sceneRef g1 then None
                 else Some (g1\<lparr>explosions := splice1 i (explosions g1)\<rparr>))
           else Some g1)"

definition updateExplosions :: "Game \<Rightarrow> Game option" where
  "updateExplosions g = forDown (length (explosions g)) explosionsBody g"

subsection \<open>The whole frame, lines 458--697\<close>

text \<open>
  \<open>playerRef.current!\<close> is dereferenced at line 467 whatever keys are held, before
  anything else is written: a null player throws there. The frame ends by rendering and by
  asking for the next frame (the \<open>gameOver\<close> it tests there is the value the effect
  closed over, which is false); neither changes the record.
\<close>

definition animate :: "Game \<Rightarrow> Game option" where
  "animate g =
     (if \<not> running g then Some g
      else case playerRef g of
        None \<Rightarrow> None
      | Some p \<Rightarrow>
          (case updateBullets (g\<lparr>playerRef := Some (movePlayer (moveRef g) (canvasSize g) p)\<rparr>) of
             None \<Rightarrow> None
           | Some g2 \<Rightarrow>
               (case updateEnemyBullets g2 of
                  None \<Rightarrow> None
                | Some g3 \<Rightarrow>
                    (case updateEnemies g3 of
                       None \<Rightarrow> None
                     | Some g4 \<Rightarrow> updateExplosions g4))))"

section \<open>The effect that owns a round, lines 93--709\<close>

text \<open>
  The effect depends on \<open>gameOver\<close> and \<open>canvasSize\<close>. Its body returns at once when
  \<open>gameOver\<close> holds; otherwise it builds scene and player, empties the enemy and enemy
  bullet arrays, starts with no explosions and no held keys, and runs the first frame
  itself (line 698). It does not assign \<open>bulletsRef.current\<close>. Its cleanup stops the
  frame loop.
\<close>

definition effect :: "Game \<Rightarrow> Game option" where
  "effect g =
     (if gameOver g then Some g
      else animate (g\<lparr>sceneRef := True, playerRef := Some (Mesh 0 (- 4)),
                      enemiesRef := [], enemyBulletsRef := [], explosions := [],
                      moveRef := noMove, running := True\<rparr>))"

definition cleanup :: "Game \<Rightarrow> Game" where
  "cleanup g = g\<lparr>running := False\<rparr>"

text \<open>
  A click on Restart: \<open>handleRestart\<close>, after which React finds \<open>gameOver\<close> changed and
  runs the effect again. The button exists only while \<open>gameOver\<close> holds; the run of the
  effect for that value returned early and left no cleanup.
\<close>

definition restart :: "Game \<Rightarrow> Game option" where
  "restart g = effect (handleRestart g)"

text \<open>A resize: \<open>setCanvasSize\<close>, then cleanup and effect.\<close>

definition resize :: "CanvasSize \<Rightarrow> Game \<Rightarrow> Game option" where
  "resize c g = effect (cleanup (g\<lparr>canvasSize := c\<rparr>))"

section \<open>Specification vocabulary\<close>

text \<open>
  The fields a loop of \<open>animate\<close> leaves alone. The player bullet loop writes the bullets,
  the enemies, the explosions and the score; the two loops that can hit the player write
  one array each, the explosions, \<open>lives\<close> and \<open>gameOver\<close>.
\<close>

definition bulletsFrame :: "Game \<Rightarrow> Game \<Rightarrow> bool" where
  "bulletsFrame g t \<longleftrightarrow>
     sceneRef t = sceneRef g \<and> playerRef t = playerRef g \<and>
     enemyBulletsRef t = enemyBulletsRef g \<and> moveRef t = moveRef g \<and>
     running t = running g \<and> lives t = lives g \<and> gameOver t = gameOver g \<and>
     canvasSize t = canvasSize g"

definition hitFrame :: "Game \<Rightarrow> Game \<Rightarrow> bool" where
  "hitFrame g t \<longleftrightarrow>
     sceneRef t = sceneRef g \<and> playerRef t = playerRef g \<and>
     bulletsRef t = bulletsRef g \<and> moveRef t = moveRef g \<and>
     running t = running g \<and> score t = score g \<and> canvasSize t = canvasSize g"

text \<open>
  How many enemy bullets, and how many enemies, pass the box test against a player at \<open>p\<close>
  once they have made their move of the frame.
\<close>

definition shotsOnPlayer :: "Mesh \<Rightarrow> Mesh list \<Rightarrow> nat" where
  "shotsOnPlayer p ebs = length (filter (\<lambda>b. enemyBulletHits (moveEnemyBullet b) p) ebs)"

definition ramsOnPlayer :: "Mesh \<Rightarrow> Mesh list \<Rightarrow> nat" where
  "ramsOnPlayer p es = length (filter (\<lambda>e. enemyHits (moveEnemy e) p) es)"

text \<open>
  What a frame that runs computes from \<open>g\<close>: \<open>p'\<close> is the player after its move,
  \<open>g2\<close> the state after the player bullet loop and \<open>g'\<close> the state at the end of
  the frame.
\<close>

definition frameResult :: "Game \<Rightarrow> Mesh \<Rightarrow> Game \<Rightarrow> Game \<Rightarrow> bool" where
  "frameResult g p' g2 g' \<longleftrightarrow>
      playerRef g' = Some p' \<and>
      sceneRef g' \<and> running g' \<and> moveRef g' = moveRef g \<and> canvasSize g' = canvasSize g \<and>
      bulletsRef g' = bulletsRef g2 \<and> score g' = score g2 \<and>
      subseq (bulletsRef g2) (map moveBullet (bulletsRef g)) \<and>
      set (enemiesRef g2) \<subseteq> set (enemiesRef g) \<and>
      score g2 + int (length (enemiesRef g2)) = score g + int (length (enemiesRef g)) \<and>
      score g \<le> score g2 \<and>
      enemyBulletsRef g' = filter (\<lambda>b. \<not> posY b < - 5 - ENEMY_BULLET_HEIGHT \<and> \<not> enemyBulletHits b p')
                             (map moveEnemyBullet (enemyBulletsRef g)) \<and>
      enemiesRef g' = filter (\<lambda>e. \<not> enemyHits e p' \<and> \<not> posY e < - 5 - ENEMY_HEIGHT)
                        (map moveEnemy (enemiesRef g2)) \<and>
      lives g' = lives g - int (shotsOnPlayer p' (enemyBulletsRef g) + ramsOnPlayer p' (enemiesRef g2)) \<and>
      gameOver g' = (gameOver g \<or>
         0 < shotsOnPlayer p' (enemyBulletsRef g) + ramsOnPlayer p' (enemiesRef g2) \<and>
         lives g - int (shotsOnPlayer p' (enemyBulletsRef g) + ramsOnPlayer p' (enemiesRef g2)) \<le> 0) \<and>
      explosions g' = filter (\<lambda>x. \<not> timer x \<le> 0) (map (\<lambda>x. x\<lparr>timer := timer x - 1 / 60\<rparr>)
         (explosions g2 @ replicate (shotsOnPlayer p' (enemyBulletsRef g) + ramsOnPlayer p' (enemiesRef g2))
            \<lparr>mesh = p', timer = 0.5\<rparr>))"

text \<open>
  The states a mounted component can be in: the first run of the effect, then frames, key
  events and timer callbacks while the effect is live (between its body and its cleanup),
  the cleanup React runs once \<open>gameOver\<close> has changed, a click on Restart, and a resize.
  A frame may still run between the update that sets \<open>gameOver\<close> and the cleanup.
\<close>

inductive reachable :: "Game \<Rightarrow> bool" where
  start: "effect (initial c) = Some g \<Longrightarrow> reachable g"
| frame: "reachable g \<Longrightarrow> animate g = Some g' \<Longrightarrow> reachable g'"
| keyDown: "reachable g \<Longrightarrow> running g \<Longrightarrow> reachable (onKeyDown e g)"
| keyUp: "reachable g \<Longrightarrow> running g \<Longrightarrow> reachable (onKeyUp e g)"
| spawn: "reachable g \<Longrightarrow> running g \<Longrightarrow> 0 \<le> r \<Longrightarrow> r < 1 \<Longrightarrow> reachable (enemyInterval r g)"
| fire: "reachable g \<Longrightarrow> running g \<Longrightarrow> 0 \<le> r \<Longrightarrow> r < 1 \<Longrightarrow> reachable (enemyShootInterval r g)"
| over: "reachable g \<Longrightarrow> gameOver g \<Longrightarrow> reachable (cleanup g)"
| again: "reachable g \<Longrightarrow> gameOver g \<Longrightarrow> restart g = Some g' \<Longrightarrow> reachable g'"
| resized: "reachable g \<Longrightarrow> resize c g = Some g' \<Longrightarrow> reachable g'"

text \<open>
  The player bullet pass in the words of the specification, as amended for claim C3. The
  pass works on the adversaries still live, the effect markers and the score. The bullets
  are handled from the last of the collection to the first. A bullet is moved first; one
  that the move takes above the upper bound is removed untested. Otherwise it is tested
  against the adversaries that are still live, from the last to the first
  (\<open>spec_lastHit\<close> is the index of the first match of that scan); on a match the bullet
  and that adversary are removed, a marker with countdown 0.35 is put at the adversary's
  position and the score goes up by 1; with no match the bullet stays where the move
  took it.
\<close>

type_synonym Tally = "Mesh list \<times> Explosion list \<times> int"

fun spec_lastHit :: "Mesh \<Rightarrow> Mesh list \<Rightarrow> nat option" where
  "spec_lastHit b [] = None"
| "spec_lastHit b (e # es) =
     (case spec_lastHit b es of
        Some j \<Rightarrow> Some (Suc j)
      | None \<Rightarrow> if bulletHits b e then Some 0 else None)"

definition spec_bullet :: "Mesh \<Rightarrow> Tally \<Rightarrow> Mesh option \<times> Tally" where
  "spec_bullet b st =
     (case st of (es, xs, sc) \<Rightarrow>
        if 5 + BULLET_HEIGHT < posY (moveBullet b) then (None, st)
        else case spec_lastHit (moveBullet b) es of
          None \<Rightarrow> (Some (moveBullet b), st)
        | Some j \<Rightarrow> (None, (splice1 j es, xs @ [\<lparr>mesh = es ! j, timer = 0.35\<rparr>], sc + 1)))"

fun spec_bullets :: "Mesh list \<Rightarrow> Tally \<Rightarrow> Mesh list \<times> Tally" where
  "spec_bullets [] st = ([], st)"
| "spec_bullets (b # bs) st =
     (case spec_bullets bs st of (kept, st1) \<Rightarrow>
        case spec_bullet b st1 of
          (None, st2) \<Rightarrow> (kept, st2)
        | (Some b', st2) \<Rightarrow> (b' # kept, st2))"

text \<open>
  The explosion pass in the words of the specification, for a frame that took \<open>dt\<close>
  seconds: every countdown goes down by \<open>dt\<close>, and a marker whose countdown has reached
  0 or less is removed.
\<close>

definition spec_updateExplosions :: "real \<Rightarrow> Explosion list \<Rightarrow> Explosion list" where
  "spec_updateExplosions dt xs =
     filter (\<lambda>x. \<not> timer x \<le> 0) (map (\<lambda>x. x\<lparr>timer := timer x - dt\<rparr>) xs)"

section \<open>Example states\<close>

text \<open>
  A round in progress on a 700 by 1000 canvas (a view 7 units wide), and variations of it:
  two enemy bullets about to reach the player, the same on the last life, one player bullet
  just below one enemy, three player bullets around two enemies, a round with one
  explosion just pushed, a round with one enemy below the firing line; and a canvas 70
  wide and 1500 high, whose view (7/15 of a unit) is narrower than the ship.
\<close>

definition playGame :: Game where
  "playGame =
     \<lparr>sceneRef = True, playerRef = Some (Mesh 0 (- 4)), bulletsRef = [], enemiesRef = [],
      enemyBulletsRef = [], moveRef = noMove, explosions = [], running = True,
      score = 0, lives = 3, gameOver = False, canvasSize = \<lparr>width = 700, height = 1000\<rparr>\<rparr>"

definition twoShotsGame :: Game where
  "twoShotsGame = playGame\<lparr>enemyBulletsRef := [Mesh 0 (- 3.5), Mesh 0.1 (- 3.4)]\<rparr>"

definition lastLifeGame :: Game where
  "lastLifeGame = twoShotsGame\<lparr>lives := 1\<rparr>"

definition duelGame :: Game where
  "duelGame = playGame\<lparr>bulletsRef := [Mesh 0 4.9], enemiesRef := [Mesh 0 5]\<rparr>"

definition narrowCanvas :: CanvasSize where
  "narrowCanvas = \<lparr>width = 70, height = 1500\<rparr>"

definition boomGame :: Game where
  "boomGame = playGame\<lparr>explosions := [\<lparr>mesh = Mesh 0 5, timer = 0.35\<rparr>]\<rparr>"

definition fireGame :: Game where
  "fireGame = playGame\<lparr>enemiesRef := [Mesh 1 3]\<rparr>"

text \<open>
  States of two rounds played from the start. In the first the player fires at once and
  waits: \<open>flyState k\<close> is the round \<open>k\<close> frames later, and \<open>edgeGame\<close> the round after
  44 frames, when an enemy is spawned in the middle of the top edge. In the second the
  player holds the up key (\<open>upState y\<close>, the player at height \<open>y\<close>) until the ship is at
  the top, four enemies are spawned in the middle, and the player fires: \<open>ramGame\<close>. The
  next frame ends that round: \<open>overGame\<close>.
\<close>

definition upState :: "real \<Rightarrow> Game" where
  "upState y = playGame\<lparr>playerRef := Some (Mesh 0 y), moveRef := noMove\<lparr>up := True\<rparr>\<rparr>"

definition flyState :: "nat \<Rightarrow> Game" where
  "flyState k = playGame\<lparr>bulletsRef :=
     [Mesh (- 0.575) (- 4.2 + 0.2 * real k), Mesh 0.575 (- 4.2 + 0.2 * real k),
      Mesh 0 (- 3.1 + 0.2 * real k)]\<rparr>"

definition edgeGame :: Game where
  "edgeGame = playGame\<lparr>bulletsRef := [Mesh (- 0.575) 4.6, Mesh 0.575 4.6, Mesh 0 5.7],
                 enemiesRef := [Mesh 0 5.45]\<rparr>"

definition ramGame :: Game where
  "ramGame = (upState 4.5)\<lparr>bulletsRef := [Mesh (- 0.575) 4.3, Mesh 0.575 4.3, Mesh 0 5.4],
                 enemiesRef := [Mesh 0 5.45, Mesh 0 5.45, Mesh 0 5.45, Mesh 0 5.45]\<rparr>"

definition overGame :: Game where
  "overGame = (upState 4.5)\<lparr>bulletsRef := [Mesh (- 0.575) 4.5, Mesh 0.575 4.5],
                 explosions := [\<lparr>mesh = Mesh 0 5.45, timer = 1 / 3\<rparr>,
                                \<lparr>mesh = Mesh 0 4.5, timer = 29 / 60\<rparr>,
                                \<lparr>mesh = Mesh 0 4.5, timer = 29 / 60\<rparr>,
                                \<lparr>mesh = Mesh 0 4.5, timer = 29 / 60\<rparr>],
                 score := 1, lives := 0, gameOver := True\<rparr>"

definition volleyGame :: Game where
  "volleyGame = playGame\<lparr>bulletsRef := [Mesh 0.45 4.5, Mesh 0 4.9, Mesh 0 5.7],
                  enemiesRef := [Mesh 0 5, Mesh 0.1 5.2]\<rparr>"

section \<open>Unfolding sets\<close>

lemmas const_defs =
  PLAYER_WIDTH_def PLAYER_HEIGHT_def BULLET_WIDTH_def BULLET_HEIGHT_def BULLET_SPEED_def
  ENEMY_BULLET_WIDTH_def ENEMY_BULLET_HEIGHT_def ENEMY_BULLET_SPEED_def
  ENEMY_WIDTH_def ENEMY_HEIGHT_def ENEMY_SPEED_def speed_def viewHeight_def

lemmas eval_defs =
  animate_def updateBullets_def updateEnemyBullets_def updateEnemies_def updateExplosions_def
  bulletsBody_def enemyBulletsBody_def enemiesBody_def explosionsBody_def
  movePlayer_def moveBullet_def moveEnemyBullet_def moveEnemy_def
  bulletHits_def enemyBulletHits_def enemyHits_def overlap_def splice1_def loseLife_def
  noMove_def leftBound_def rightBound_def viewWidth_def const_defs Let_def

section \<open>Loops\<close>

subsection \<open>An invariant rule for \<open>forDown\<close>\<close>

lemma forDown_rule:
  assumes "I n s"
    and "\<And>k t. k < n \<Longrightarrow> I (Suc k) t \<Longrightarrow> \<exists>t'. body k t = Some t' \<and> I k t'"
  shows "\<exists>s'. forDown n body s = Some s' \<and> I 0 s'"
  using assms
proof (induction n arbitrary: s)
  case 0
  then show ?case by simp
next
  case (Suc n)
  from Suc.prems(2)[of n s] Suc.prems(1) obtain t where t: "body n s = Some t" "I n t"
    by auto
  have "\<exists>s'. forDown n body t = Some s' \<and> I 0 s'"
    by (rule Suc.IH[OF t(2)]) (use Suc.prems(2) in auto)
  with t(1) show ?case by simp
qed

lemma length_splice1: "i < length xs \<Longrightarrow> length (splice1 i xs) = length xs - 1"
  by (simp add: splice1_def)

lemma set_splice1: "set (splice1 i xs) \<subseteq> set xs"
  unfolding splice1_def by (auto dest: in_set_takeD in_set_dropD)

lemma splice1_update: "splice1 i (xs[i := v]) = splice1 i xs"
  by (simp add: splice1_def)

lemma take_splice1: "k \<le> i \<Longrightarrow> take k (splice1 i xs) = take k xs"
  by (simp add: splice1_def min_def)

lemma drop_splice1: "i < length xs \<Longrightarrow> drop i (splice1 i xs) = drop (Suc i) xs"
  by (simp add: splice1_def)

lemma drop_update_same: "i < length xs \<Longrightarrow> drop i (xs[i := v]) = v # drop (Suc i) xs"
  by (simp add: Cons_nth_drop_Suc[symmetric] drop_update_swap)

lemma enemiesScan_props:
  assumes "sceneRef g" "i < length (bulletsRef g)" "j \<le> length (enemiesRef g)"
  shows "\<exists>t. enemiesScan i j g = Some t \<and>
           bulletsFrame g t \<and>
           (bulletsRef t = bulletsRef g \<or> bulletsRef t = splice1 i (bulletsRef g)) \<and>
           set (enemiesRef t) \<subseteq> set (enemiesRef g) \<and>
           score t + int (length (enemiesRef t)) = score g + int (length (enemiesRef g)) \<and>
           score g \<le> score t"
  using assms
proof (induction j)
  case 0
  then show ?case by (simp add: bulletsFrame_def)
next
  case (Suc j)
  show ?case
  proof (cases "bulletHits (bulletsRef g ! i) (enemiesRef g ! j)")
    case True
    with Suc.prems show ?thesis
      by (simp add: set_splice1 length_splice1 bulletsFrame_def)
  next
    case False
    with Suc show ?thesis by simp
  qed
qed

lemma bulletsBody_props:
  assumes "sceneRef g" "i < length (bulletsRef g)"
  shows "\<exists>t. bulletsBody i g = Some t \<and>
           bulletsFrame g t \<and>
           (bulletsRef t = (bulletsRef g)[i := moveBullet (bulletsRef g ! i)] \<or>
            bulletsRef t = splice1 i (bulletsRef g)) \<and>
           set (enemiesRef t) \<subseteq> set (enemiesRef g) \<and>
           score t + int (length (enemiesRef t)) = score g + int (length (enemiesRef g)) \<and>
           score g \<le> score t"
proof (cases "posY (moveBullet (bulletsRef g ! i)) > 5 + BULLET_HEIGHT")
  case True
  with assms show ?thesis
    by (simp add: bulletsBody_def splice1_update bulletsFrame_def)
next
  case False
  define g1 where "g1 = g\<lparr>bulletsRef := (bulletsRef g)[i := moveBullet (bulletsRef g ! i)]\<rparr>"
  have "sceneRef g1" "i < length (bulletsRef g1)" "length (enemiesRef g1) \<le> length (enemiesRef g1)"
    using assms by (simp_all add: g1_def)
  from enemiesScan_props[OF this] obtain t where t:
    "enemiesScan i (length (enemiesRef g1)) g1 = Some t"
    "bulletsFrame g1 t"
    "bulletsRef t = bulletsRef g1 \<or> bulletsRef t = splice1 i (bulletsRef g1)"
    "set (enemiesRef t) \<subseteq> set (enemiesRef g1)"
    "score t + int (length (enemiesRef t)) = score g1 + int (length (enemiesRef g1))"
    "score g1 \<le> score t"
    by blast
  have body: "bulletsBody i g = Some t"
    using assms False t(1) by (simp add: bulletsBody_def g1_def Let_def)
  have frame: "bulletsFrame g t"
    using t(2) by (simp add: g1_def bulletsFrame_def)
  show ?thesis
    using body frame t(3-6) by (simp add: g1_def splice1_update)
qed


lemma updateBullets_props:
  assumes "sceneRef g"
  shows "\<exists>t. updateBullets g = Some t \<and>
           bulletsFrame g t \<and>
           subseq (bulletsRef t) (map moveBullet (bulletsRef g)) \<and>
           set (enemiesRef t) \<subseteq> set (enemiesRef g) \<and>
           score t + int (length (enemiesRef t)) = score g + int (length (enemiesRef g)) \<and>
           score g \<le> score t"
proof -
  define I where "I = (\<lambda>k t. k \<le> length (bulletsRef t) \<and>
           bulletsFrame g t \<and>
           take k (bulletsRef t) = take k (bulletsRef g) \<and>
           subseq (drop k (bulletsRef t)) (map moveBullet (drop k (bulletsRef g))) \<and>
           set (enemiesRef t) \<subseteq> set (enemiesRef g) \<and>
           score t + int (length (enemiesRef t)) = score g + int (length (enemiesRef g)) \<and>
           score g \<le> score t)"
  have init: "I (length (bulletsRef g)) g"
    by (simp add: I_def bulletsFrame_def)
  have step: "\<exists>t'. bulletsBody k t = Some t' \<and> I k t'"
    if k: "k < length (bulletsRef g)" and inv: "I (Suc k) t" for k t
  proof -
    from inv have len: "k < length (bulletsRef t)"
      and frame: "bulletsFrame g t"
      and tk: "take (Suc k) (bulletsRef t) = take (Suc k) (bulletsRef g)"
      and sub: "subseq (drop (Suc k) (bulletsRef t)) (map moveBullet (drop (Suc k) (bulletsRef g)))"
      and es: "set (enemiesRef t) \<subseteq> set (enemiesRef g)"
      and sc: "score t + int (length (enemiesRef t)) = score g + int (length (enemiesRef g))"
        "score g \<le> score t"
      by (simp_all add: I_def)
    have scene: "sceneRef t"
      using frame assms by (simp add: bulletsFrame_def)
    from bulletsBody_props[OF scene len] obtain t' where t':
      "bulletsBody k t = Some t'"
      "bulletsFrame t t'"
      "bulletsRef t' = (bulletsRef t)[k := moveBullet (bulletsRef t ! k)] \<or>
            bulletsRef t' = splice1 k (bulletsRef t)"
      "set (enemiesRef t') \<subseteq> set (enemiesRef t)"
      "score t' + int (length (enemiesRef t')) = score t + int (length (enemiesRef t))"
      "score t \<le> score t'"
      by blast
    have nth: "bulletsRef t ! k = bulletsRef g ! k"
      using tk by (metis lessI nth_take)
    have tk': "take k (bulletsRef t) = take k (bulletsRef g)"
      using tk by (metis take_Suc_conv_app_nth k len append1_eq_conv)
    have dg: "map moveBullet (drop k (bulletsRef g)) =
        moveBullet (bulletsRef g ! k) # map moveBullet (drop (Suc k) (bulletsRef g))"
      using k by (simp add: Cons_nth_drop_Suc[symmetric])
    have frame': "bulletsFrame g t'"
      using t'(2) frame by (simp add: bulletsFrame_def)
    from t'(3) have bl: "k \<le> length (bulletsRef t') \<and> take k (bulletsRef t') = take k (bulletsRef g)
        \<and> subseq (drop k (bulletsRef t')) (map moveBullet (drop k (bulletsRef g)))"
    proof
      assume "bulletsRef t' = (bulletsRef t)[k := moveBullet (bulletsRef t ! k)]"
      then show ?thesis
        using len tk' sub nth by (simp add: dg drop_update_same)
    next
      assume "bulletsRef t' = splice1 k (bulletsRef t)"
      then show ?thesis
        using len tk' sub by (auto simp add: dg drop_splice1 take_splice1 length_splice1 intro: subseq_Cons')
    qed
    show ?thesis
      unfolding I_def using t'(1) frame' bl t'(4-6) es sc by auto
  qed
  have "\<exists>t. forDown (length (bulletsRef g)) bulletsBody g = Some t \<and> I 0 t"
    using init step by (rule forDown_rule)
  then show ?thesis
    by (simp add: updateBullets_def I_def)
qed


lemma nth_take_Suc_append: "k < length xs \<Longrightarrow> (take (Suc k) xs @ ys) ! k = xs ! k"
  by (simp add: nth_append)

lemma splice1_take_Suc_append: "k < length xs \<Longrightarrow> splice1 k (take (Suc k) xs @ ys) = take k xs @ ys"
  by (simp add: splice1_def min_def)

lemma update_take_Suc_append:
  "k < length xs \<Longrightarrow> (take (Suc k) xs @ ys)[k := v] = take k xs @ v # ys"
  by (simp add: take_Suc_conv_app_nth list_update_append)

lemma enemyBulletsBody_eq:
  assumes "sceneRef t" "playerRef t = Some p" "k < length (enemyBulletsRef t)"
  shows "enemyBulletsBody k t =
     Some (if posY (moveEnemyBullet (enemyBulletsRef t ! k)) < - 5 - ENEMY_BULLET_HEIGHT
           then t\<lparr>enemyBulletsRef := splice1 k (enemyBulletsRef t)\<rparr>
           else if enemyBulletHits (moveEnemyBullet (enemyBulletsRef t ! k)) p
           then loseLife (t\<lparr>explosions := explosions t @ [\<lparr>mesh = p, timer = 0.5\<rparr>],
                            enemyBulletsRef := splice1 k (enemyBulletsRef t)\<rparr>)
           else t\<lparr>enemyBulletsRef := (enemyBulletsRef t)[k := moveEnemyBullet (enemyBulletsRef t ! k)]\<rparr>)"
  using assms by (simp add: enemyBulletsBody_def Let_def splice1_update)

lemma updateEnemyBullets_props:
  assumes scene: "sceneRef g" and player: "playerRef g = Some p"
  defines "moved \<equiv> map moveEnemyBullet (enemyBulletsRef g)"
  defines "h \<equiv> length (filter (\<lambda>b. \<not> posY b < - 5 - ENEMY_BULLET_HEIGHT \<and> enemyBulletHits b p) moved)"
  shows "\<exists>t. updateEnemyBullets g = Some t \<and> hitFrame g t \<and> enemiesRef t = enemiesRef g \<and>
           enemyBulletsRef t =
             filter (\<lambda>b. \<not> posY b < - 5 - ENEMY_BULLET_HEIGHT \<and> \<not> enemyBulletHits b p) moved \<and>
           explosions t = explosions g @ replicate h \<lparr>mesh = p, timer = 0.5\<rparr> \<and>
           lives t = lives g - int h \<and>
           gameOver t = (gameOver g \<or> 0 < h \<and> lives g - int h \<le> 0)"
proof -
  define xs where "xs = enemyBulletsRef g"
  define keep where "keep = (\<lambda>b. \<not> posY b < - 5 - ENEMY_BULLET_HEIGHT \<and> \<not> enemyBulletHits b p)"
  define hit where "hit = (\<lambda>b. \<not> posY b < - 5 - ENEMY_BULLET_HEIGHT \<and> enemyBulletHits b p)"
  define H where "H = (\<lambda>k. length (filter hit (map moveEnemyBullet (drop k xs))))"
  define I where "I = (\<lambda>k t. hitFrame g t \<and> enemiesRef t = enemiesRef g \<and>
           enemyBulletsRef t = take k xs @ filter keep (map moveEnemyBullet (drop k xs)) \<and>
           explosions t = explosions g @ replicate (H k) \<lparr>mesh = p, timer = 0.5\<rparr> \<and>
           lives t = lives g - int (H k) \<and>
           gameOver t = (gameOver g \<or> 0 < H k \<and> lives g - int (H k) \<le> 0))"
  have init: "I (length (enemyBulletsRef g)) g"
    by (simp add: I_def H_def hitFrame_def xs_def)
  have step: "\<exists>t'. enemyBulletsBody k t = Some t' \<and> I k t'"
    if k: "k < length (enemyBulletsRef g)" and inv: "I (Suc k) t" for k t
  proof -
    from k have kx: "k < length xs" by (simp add: xs_def)
    from inv have fr: "hitFrame g t" and en: "enemiesRef t = enemiesRef g"
      and eb: "enemyBulletsRef t = take (Suc k) xs @ filter keep (map moveEnemyBullet (drop (Suc k) xs))"
      and ex: "explosions t = explosions g @ replicate (H (Suc k)) \<lparr>mesh = p, timer = 0.5\<rparr>"
      and lv: "lives t = lives g - int (H (Suc k))"
      and go: "gameOver t = (gameOver g \<or> 0 < H (Suc k) \<and> lives g - int (H (Suc k)) \<le> 0)"
      by (simp_all add: I_def)
    from fr scene player have sp: "sceneRef t" "playerRef t = Some p"
      by (simp_all add: hitFrame_def)
    have len: "k < length (enemyBulletsRef t)"
      using kx by (simp add: eb)
    note body = enemyBulletsBody_eq[OF sp len]
    have nth: "enemyBulletsRef t ! k = xs ! k"
      using kx by (simp add: eb nth_take_Suc_append)
    have dk: "drop k xs = xs ! k # drop (Suc k) xs"
      using kx by (simp add: Cons_nth_drop_Suc)
    let ?b = "moveEnemyBullet (xs ! k)"
    have cases3: "posY ?b < - 5 - ENEMY_BULLET_HEIGHT
      \<or> \<not> posY ?b < - 5 - ENEMY_BULLET_HEIGHT \<and> enemyBulletHits ?b p
      \<or> \<not> posY ?b < - 5 - ENEMY_BULLET_HEIGHT \<and> \<not> enemyBulletHits ?b p"
      by blast
    have sp1: "splice1 k (enemyBulletsRef t) =
        take k xs @ filter keep (map moveEnemyBullet (drop (Suc k) xs))"
      using kx by (simp add: eb splice1_take_Suc_append)
    have up1: "(enemyBulletsRef t)[k := v] =
        take k xs @ v # filter keep (map moveEnemyBullet (drop (Suc k) xs))" for v
      using kx by (simp add: eb update_take_Suc_append)
    from cases3 consider (oob) "posY ?b < - 5 - ENEMY_BULLET_HEIGHT"
      | (hit) "\<not> posY ?b < - 5 - ENEMY_BULLET_HEIGHT" "enemyBulletHits ?b p"
      | (keep) "\<not> posY ?b < - 5 - ENEMY_BULLET_HEIGHT" "\<not> enemyBulletHits ?b p"
      by blast
    then show ?thesis
    proof cases
      case oob
      then have Hk: "H k = H (Suc k)" by (simp add: H_def dk hit_def)
      have "enemyBulletsBody k t = Some (t\<lparr>enemyBulletsRef := splice1 k (enemyBulletsRef t)\<rparr>)"
        using oob by (simp add: body nth)
      then show ?thesis
        using oob fr en ex lv go
        by (simp add: I_def Hk hitFrame_def sp1 dk keep_def)
    next
      case hit
      then have Hk: "H k = Suc (H (Suc k))" by (simp add: H_def dk hit_def)
      have "enemyBulletsBody k t =
          Some (loseLife (t\<lparr>explosions := explosions t @ [\<lparr>mesh = p, timer = 0.5\<rparr>],
                            enemyBulletsRef := splice1 k (enemyBulletsRef t)\<rparr>))"
        using hit by (simp add: body nth)
      then show ?thesis
        using hit fr en ex lv go
        by (auto simp add: I_def Hk hitFrame_def sp1 dk keep_def loseLife_def replicate_append_same)
    next
      case keep
      then have Hk: "H k = H (Suc k)" by (simp add: H_def dk hit_def)
      have "enemyBulletsBody k t =
          Some (t\<lparr>enemyBulletsRef := (enemyBulletsRef t)[k := moveEnemyBullet (xs ! k)]\<rparr>)"
        using keep by (simp add: body nth)
      then show ?thesis
        using keep fr en ex lv go
        by (simp add: I_def Hk hitFrame_def up1 dk keep_def)
    qed
  qed
  have "\<exists>t. forDown (length (enemyBulletsRef g)) enemyBulletsBody g = Some t \<and> I 0 t"
    using init step by (rule forDown_rule)
  then show ?thesis
    by (simp add: updateEnemyBullets_def I_def H_def xs_def keep_def hit_def moved_def h_def)
qed


lemma enemiesBody_eq:
  assumes "sceneRef t" "playerRef t = Some p" "k < length (enemiesRef t)"
  shows "enemiesBody k t =
     Some (if enemyHits (moveEnemy (enemiesRef t ! k)) p
           then loseLife (t\<lparr>explosions := explosions t @ [\<lparr>mesh = p, timer = 0.5\<rparr>],
                            enemiesRef := splice1 k (enemiesRef t)\<rparr>)
           else if posY (moveEnemy (enemiesRef t ! k)) < - 5 - ENEMY_HEIGHT
           then t\<lparr>enemiesRef := splice1 k (enemiesRef t)\<rparr>
           else t\<lparr>enemiesRef := (enemiesRef t)[k := moveEnemy (enemiesRef t ! k)]\<rparr>)"
  using assms by (simp add: enemiesBody_def Let_def splice1_update)

lemma updateEnemies_props:
  assumes scene: "sceneRef g" and player: "playerRef g = Some p"
  defines "moved \<equiv> map moveEnemy (enemiesRef g)"
  defines "h \<equiv> length (filter (\<lambda>e. enemyHits e p) moved)"
  shows "\<exists>t. updateEnemies g = Some t \<and> hitFrame g t \<and> enemyBulletsRef t = enemyBulletsRef g \<and>
           enemiesRef t = filter (\<lambda>e. \<not> enemyHits e p \<and> \<not> posY e < - 5 - ENEMY_HEIGHT) moved \<and>
           explosions t = explosions g @ replicate h \<lparr>mesh = p, timer = 0.5\<rparr> \<and>
           lives t = lives g - int h \<and>
           gameOver t = (gameOver g \<or> 0 < h \<and> lives g - int h \<le> 0)"
proof -
  define xs where "xs = enemiesRef g"
  define keep where "keep = (\<lambda>e. \<not> enemyHits e p \<and> \<not> posY e < - 5 - ENEMY_HEIGHT)"
  define H where "H = (\<lambda>k. length (filter (\<lambda>e. enemyHits e p) (map moveEnemy (drop k xs))))"
  define I where "I = (\<lambda>k t. hitFrame g t \<and> enemyBulletsRef t = enemyBulletsRef g \<and>
           enemiesRef t = take k xs @ filter keep (map moveEnemy (drop k xs)) \<and>
           explosions t = explosions g @ replicate (H k) \<lparr>mesh = p, timer = 0.5\<rparr> \<and>
           lives t = lives g - int (H k) \<and>
           gameOver t = (gameOver g \<or> 0 < H k \<and> lives g - int (H k) \<le> 0))"
  have init: "I (length (enemiesRef g)) g"
    by (simp add: I_def H_def hitFrame_def xs_def)
  have step: "\<exists>t'. enemiesBody k t = Some t' \<and> I k t'"
    if k: "k < length (enemiesRef g)" and inv: "I (Suc k) t" for k t
  proof -
    from k have kx: "k < length xs" by (simp add: xs_def)
    from inv have fr: "hitFrame g t" and en: "enemyBulletsRef t = enemyBulletsRef g"
      and eb: "enemiesRef t = take (Suc k) xs @ filter keep (map moveEnemy (drop (Suc k) xs))"
      and ex: "explosions t = explosions g @ replicate (H (Suc k)) \<lparr>mesh = p, timer = 0.5\<rparr>"
      and lv: "lives t = lives g - int (H (Suc k))"
      and go: "gameOver t = (gameOver g \<or> 0 < H (Suc k) \<and> lives g - int (H (Suc k)) \<le> 0)"
      by (simp_all add: I_def)
    from fr scene player have sp: "sceneRef t" "playerRef t = Some p"
      by (simp_all add: hitFrame_def)
    have len: "k < length (enemiesRef t)"
      using kx by (simp add: eb)
    note body = enemiesBody_eq[OF sp len]
    have nth: "enemiesRef t ! k = xs ! k"
      using kx by (simp add: eb nth_take_Suc_append)
    have dk: "drop k xs = xs ! k # drop (Suc k) xs"
      using kx by (simp add: Cons_nth_drop_Suc)
    have sp1: "splice1 k (enemiesRef t) = take k xs @ filter keep (map moveEnemy (drop (Suc k) xs))"
      using kx by (simp add: eb splice1_take_Suc_append)
    have up1: "(enemiesRef t)[k := v] =
        take k xs @ v # filter keep (map moveEnemy (drop (Suc k) xs))" for v
      using kx by (simp add: eb update_take_Suc_append)
    let ?e = "moveEnemy (xs ! k)"
    consider (hit) "enemyHits ?e p"
      | (oob) "\<not> enemyHits ?e p" "posY ?e < - 5 - ENEMY_HEIGHT"
      | (keep) "\<not> enemyHits ?e p" "\<not> posY ?e < - 5 - ENEMY_HEIGHT"
      by blast
    then show ?thesis
    proof cases
      case hit
      then have Hk: "H k = Suc (H (Suc k))" by (simp add: H_def dk)
      have "enemiesBody k t =
          Some (loseLife (t\<lparr>explosions := explosions t @ [\<lparr>mesh = p, timer = 0.5\<rparr>],
                            enemiesRef := splice1 k (enemiesRef t)\<rparr>))"
        using hit by (simp add: body nth)
      then show ?thesis
        using hit fr en ex lv go
        by (auto simp add: I_def Hk hitFrame_def sp1 dk keep_def loseLife_def replicate_append_same)
    next
      case oob
      then have Hk: "H k = H (Suc k)" by (simp add: H_def dk)
      have "enemiesBody k t = Some (t\<lparr>enemiesRef := splice1 k (enemiesRef t)\<rparr>)"
        using oob by (simp add: body nth)
      then show ?thesis
        using oob fr en ex lv go
        by (simp add: I_def Hk hitFrame_def sp1 dk keep_def)
    next
      case keep
      then have Hk: "H k = H (Suc k)" by (simp add: H_def dk)
      have "enemiesBody k t = Some (t\<lparr>enemiesRef := (enemiesRef t)[k := moveEnemy (xs ! k)]\<rparr>)"
        using keep by (simp add: body nth)
      then show ?thesis
        using keep fr en ex lv go
        by (simp add: I_def Hk hitFrame_def up1 dk keep_def)
    qed
  qed
  have "\<exists>t. forDown (length (enemiesRef g)) enemiesBody g = Some t \<and> I 0 t"
    using init step by (rule forDown_rule)
  then show ?thesis
    by (simp add: updateEnemies_def I_def H_def xs_def keep_def moved_def h_def)
qed

lemma explosionsBody_eq:
  assumes "sceneRef t" "k < length (explosions t)"
  shows "explosionsBody k t =
     Some (if timer (explosions t ! k) - 1 / 60 \<le> 0
           then t\<lparr>explosions := splice1 k (explosions t)\<rparr>
           else t\<lparr>explosions := (explosions t)[k := (explosions t ! k)\<lparr>timer := timer (explosions t ! k) - 1 / 60\<rparr>]\<rparr>)"
  using assms by (simp add: explosionsBody_def Let_def splice1_update)

lemma updateExplosions_eq:
  assumes scene: "sceneRef g"
  shows "updateExplosions g =
    Some (g\<lparr>explosions := filter (\<lambda>x. \<not> timer x \<le> 0)
              (map (\<lambda>x. x\<lparr>timer := timer x - 1 / 60\<rparr>) (explosions g))\<rparr>)"
proof -
  define xs where "xs = explosions g"
  define F :: "Explosion list \<Rightarrow> Explosion list" where "F = (\<lambda>ys. filter (\<lambda>x. \<not> timer x \<le> 0)
              (map (\<lambda>x. x\<lparr>timer := timer x - 1 / 60\<rparr>) ys))"
  define I where "I = (\<lambda>k t. t = g\<lparr>explosions := take k xs @ F (drop k xs)\<rparr>)"
  have init: "I (length (explosions g)) g"
    by (simp add: I_def xs_def F_def)
  have step: "\<exists>t'. explosionsBody k t = Some t' \<and> I k t'"
    if k: "k < length (explosions g)" and inv: "I (Suc k) t" for k t
  proof -
    from k have kx: "k < length xs" by (simp add: xs_def)
    from inv have t: "t = g\<lparr>explosions := take (Suc k) xs @ F (drop (Suc k) xs)\<rparr>"
      by (simp add: I_def)
    have dk: "drop k xs = xs ! k # drop (Suc k) xs"
      using kx by (simp add: Cons_nth_drop_Suc)
    have sc: "sceneRef t" and len: "k < length (explosions t)"
      using scene kx by (simp_all add: t)
    have nth: "explosions t ! k = xs ! k"
      using kx by (simp add: t nth_take_Suc_append)
    have sp1: "splice1 k (explosions t) = take k xs @ F (drop (Suc k) xs)"
      using kx by (simp add: t splice1_take_Suc_append)
    have up1: "(explosions t)[k := v] = take k xs @ v # F (drop (Suc k) xs)" for v
      using kx by (simp add: t update_take_Suc_append)
    note body = explosionsBody_eq[OF sc len]
    show ?thesis
    proof (cases "timer (xs ! k) - 1 / 60 \<le> 0")
      case True
      then have "explosionsBody k t = Some (t\<lparr>explosions := splice1 k (explosions t)\<rparr>)"
        by (simp add: body nth)
      moreover have "F (drop k xs) = F (drop (Suc k) xs)"
        using True by (simp add: dk F_def)
      ultimately show ?thesis
        by (simp add: I_def sp1) (simp add: t)
    next
      case False
      then have "explosionsBody k t =
          Some (t\<lparr>explosions := (explosions t)[k := (xs ! k)\<lparr>timer := timer (xs ! k) - 1 / 60\<rparr>]\<rparr>)"
        by (simp add: body nth)
      moreover have "F (drop k xs) = (xs ! k)\<lparr>timer := timer (xs ! k) - 1 / 60\<rparr> # F (drop (Suc k) xs)"
        using False by (simp add: dk F_def)
      ultimately show ?thesis
        by (simp add: I_def up1) (simp add: t)
    qed
  qed
  have "\<exists>t. forDown (length (explosions g)) explosionsBody g = Some t \<and> I 0 t"
    using init step by (rule forDown_rule)
  then show ?thesis
    by (simp add: updateExplosions_def I_def xs_def F_def)
qed


subsection \<open>The player bullet loop does what the specified pass does\<close>

lemma enemiesScan_first_match:
  assumes "sceneRef g" "i < length (bulletsRef g)" "j < n" "n \<le> length (enemiesRef g)"
    and "bulletHits (bulletsRef g ! i) (enemiesRef g ! j)"
    and "\<forall>k. j < k \<and> k < n \<longrightarrow> \<not> bulletHits (bulletsRef g ! i) (enemiesRef g ! k)"
  shows "enemiesScan i n g =
     Some (g\<lparr>explosions := explosions g @ [\<lparr>mesh = enemiesRef g ! j, timer = 0.35\<rparr>],
             bulletsRef := splice1 i (bulletsRef g),
             enemiesRef := splice1 j (enemiesRef g),
             score := score g + 1\<rparr>)"
  using assms
proof (induction n)
  case 0
  then show ?case by simp
next
  case (Suc n)
  show ?case
  proof (cases "j = n")
    case True
    with Suc.prems show ?thesis by simp
  next
    case False
    with Suc.prems have "j < n" "\<not> bulletHits (bulletsRef g ! i) (enemiesRef g ! n)"
      by auto
    with Suc show ?thesis by simp
  qed
qed

lemma spec_lastHit_None:
  "spec_lastHit b es = None \<Longrightarrow> \<forall>e \<in> set es. \<not> bulletHits b e"
  by (induction es) (auto split: option.splits if_splits)

lemma spec_lastHit_Some:
  "spec_lastHit b es = Some j \<Longrightarrow>
     j < length es \<and> bulletHits b (es ! j) \<and>
     (\<forall>k. j < k \<and> k < length es \<longrightarrow> \<not> bulletHits b (es ! k))"
proof (induction es arbitrary: j)
  case Nil
  then show ?case by simp
next
  case (Cons e es)
  show ?case
  proof (cases "spec_lastHit b es")
    case None
    from spec_lastHit_None[OF None] have no: "\<forall>k < length es. \<not> bulletHits b (es ! k)"
      by simp
    from Cons.prems None have "j = 0" "bulletHits b e"
      by (simp_all split: if_splits)
    with no show ?thesis
      by (auto simp add: nth_Cons split: nat.splits)
  next
    case (Some i)
    with Cons.prems have j: "j = Suc i" by simp
    from Cons.IH[OF Some] show ?thesis
      unfolding j by (auto simp add: nth_Cons split: nat.splits)
  qed
qed

lemma enemiesScan_no_match:
  assumes "i < length (bulletsRef g)" "n \<le> length (enemiesRef g)"
    and "\<forall>k < n. \<not> bulletHits (bulletsRef g ! i) (enemiesRef g ! k)"
  shows "enemiesScan i n g = Some g"
  using assms by (induction n) simp_all

lemma bulletsBody_spec:
  assumes "sceneRef t" "k < length (bulletsRef t)"
  shows "bulletsBody k t =
     Some (case spec_bullet (bulletsRef t ! k) (enemiesRef t, explosions t, score t) of
             (None, es, xs, sc) \<Rightarrow>
               t\<lparr>explosions := xs, bulletsRef := splice1 k (bulletsRef t),
                 enemiesRef := es, score := sc\<rparr>
           | (Some b', es, xs, sc) \<Rightarrow>
               t\<lparr>explosions := xs, bulletsRef := (bulletsRef t)[k := b'],
                 enemiesRef := es, score := sc\<rparr>)"
proof -
  let ?b = "moveBullet (bulletsRef t ! k)"
  define g1 where "g1 = t\<lparr>bulletsRef := (bulletsRef t)[k := ?b]\<rparr>"
  have g1: "sceneRef g1" "k < length (bulletsRef g1)" "bulletsRef g1 ! k = ?b"
    "enemiesRef g1 = enemiesRef t"
    using assms by (simp_all add: g1_def)
  show ?thesis
  proof (cases "5 + BULLET_HEIGHT < posY ?b")
    case True
    with assms show ?thesis
      by (simp add: bulletsBody_def spec_bullet_def splice1_update)
  next
    case inb: False
    show ?thesis
    proof (cases "spec_lastHit ?b (enemiesRef t)")
      case None
      from spec_lastHit_None[OF None]
      have "\<forall>j < length (enemiesRef g1). \<not> bulletHits (bulletsRef g1 ! k) (enemiesRef g1 ! j)"
        by (simp add: g1)
      then have "enemiesScan k (length (enemiesRef g1)) g1 = Some g1"
        by (intro enemiesScan_no_match g1(2)) simp_all
      with assms inb None show ?thesis
        by (simp add: bulletsBody_def spec_bullet_def Let_def g1_def)
    next
      case (Some j)
      from spec_lastHit_Some[OF Some]
      have j: "j < length (enemiesRef g1)" "bulletHits (bulletsRef g1 ! k) (enemiesRef g1 ! j)"
        "\<forall>i. j < i \<and> i < length (enemiesRef g1) \<longrightarrow> \<not> bulletHits (bulletsRef g1 ! k) (enemiesRef g1 ! i)"
        by (simp_all add: g1)
      have "enemiesScan k (length (enemiesRef g1)) g1 =
        Some (g1\<lparr>explosions := explosions g1 @ [\<lparr>mesh = enemiesRef g1 ! j, timer = 0.35\<rparr>],
             bulletsRef := splice1 k (bulletsRef g1),
             enemiesRef := splice1 j (enemiesRef g1),
             score := score g1 + 1\<rparr>)"
        by (rule enemiesScan_first_match[OF g1(1,2) j(1) _ j(2,3)]) simp
      with assms inb Some show ?thesis
        by (simp add: bulletsBody_def spec_bullet_def Let_def g1_def splice1_update)
    qed
  qed
qed

lemma updateBullets_spec:
  assumes scene: "sceneRef g"
  shows "updateBullets g =
    Some (case spec_bullets (bulletsRef g) (enemiesRef g, explosions g, score g) of
            (kept, es, xs, sc) \<Rightarrow>
              g\<lparr>explosions := xs, bulletsRef := kept, enemiesRef := es, score := sc\<rparr>)"
proof -
  define bs where "bs = bulletsRef g"
  define st0 where "st0 = (enemiesRef g, explosions g, score g)"
  define I where "I = (\<lambda>k t. case spec_bullets (drop k bs) st0 of
            (kept, es, xs, sc) \<Rightarrow>
              t = g\<lparr>explosions := xs, bulletsRef := take k bs @ kept, enemiesRef := es, score := sc\<rparr>)"
  have init: "I (length (bulletsRef g)) g"
    by (simp add: I_def bs_def st0_def)
  have step: "\<exists>t'. bulletsBody k t = Some t' \<and> I k t'"
    if k: "k < length (bulletsRef g)" and inv: "I (Suc k) t" for k t
  proof -
    from k have kx: "k < length bs" by (simp add: bs_def)
    obtain kept es xs sc where sp: "spec_bullets (drop (Suc k) bs) st0 = (kept, es, xs, sc)"
      by (metis prod_cases4)
    from inv have t: "t = g\<lparr>explosions := xs, bulletsRef := take (Suc k) bs @ kept,
        enemiesRef := es, score := sc\<rparr>"
      by (simp add: I_def sp)
    have dk: "drop k bs = bs ! k # drop (Suc k) bs"
      using kx by (simp add: Cons_nth_drop_Suc)
    have sc': "sceneRef t" and len: "k < length (bulletsRef t)"
      using scene kx by (simp_all add: t)
    have nth: "bulletsRef t ! k = bs ! k"
      using kx by (simp add: t nth_take_Suc_append)
    have sp1: "splice1 k (bulletsRef t) = take k bs @ kept"
      using kx by (simp add: t splice1_take_Suc_append)
    have up1: "(bulletsRef t)[k := v] = take k bs @ v # kept" for v
      using kx by (simp add: t update_take_Suc_append)
    have st: "(enemiesRef t, explosions t, score t) = (es, xs, sc)"
      by (simp add: t)
    obtain r es2 xs2 sc2 where sb: "spec_bullet (bs ! k) (es, xs, sc) = (r, es2, xs2, sc2)"
      by (metis prod_cases4)
    have body: "bulletsBody k t =
     Some (case r of
             None \<Rightarrow> t\<lparr>explosions := xs2, bulletsRef := take k bs @ kept,
                 enemiesRef := es2, score := sc2\<rparr>
           | Some b' \<Rightarrow> t\<lparr>explosions := xs2, bulletsRef := take k bs @ b' # kept,
                 enemiesRef := es2, score := sc2\<rparr>)"
      unfolding bulletsBody_spec[OF sc' len] nth st sb sp1 up1
      by (simp split: option.splits)
    show ?thesis
    proof (cases r)
      case None
      with body sb sp show ?thesis
        by (simp add: I_def dk) (simp add: t)
    next
      case (Some b')
      with body sb sp show ?thesis
        by (simp add: I_def dk) (simp add: t)
    qed
  qed
  have "\<exists>t. forDown (length (bulletsRef g)) bulletsBody g = Some t \<and> I 0 t"
    using init step by (rule forDown_rule)
  then show ?thesis
    by (auto simp add: updateBullets_def I_def bs_def st0_def split: prod.splits)
qed


lemma spec_bullet_hit:
  assumes "\<not> 5 + BULLET_HEIGHT < posY (moveBullet b)"
    and "\<exists>e \<in> set es. bulletHits (moveBullet b) e"
  shows "\<exists>j < length es.
           bulletHits (moveBullet b) (es ! j) \<and>
           (\<forall>k < length es. j < k \<longrightarrow> \<not> bulletHits (moveBullet b) (es ! k)) \<and>
           spec_bullet b (es, xs, sc) =
             (None, splice1 j es, xs @ [\<lparr>mesh = es ! j, timer = 0.35\<rparr>], sc + 1)"
proof (cases "spec_lastHit (moveBullet b) es")
  case None
  from spec_lastHit_None[OF None] assms(2) show ?thesis by blast
next
  case (Some j)
  from spec_lastHit_Some[OF Some] Some assms(1) show ?thesis
    by (intro exI[of _ j]) (simp add: spec_bullet_def)
qed

lemma spec_bullet_miss:
  assumes "\<not> 5 + BULLET_HEIGHT < posY (moveBullet b)"
    and "\<forall>e \<in> set es. \<not> bulletHits (moveBullet b) e"
  shows "spec_bullet b (es, xs, sc) = (Some (moveBullet b), es, xs, sc)"
proof (cases "spec_lastHit (moveBullet b) es")
  case None
  with assms(1) show ?thesis by (simp add: spec_bullet_def)
next
  case (Some j)
  from spec_lastHit_Some[OF Some] assms(2) show ?thesis by auto
qed

lemma spec_bullet_out:
  assumes "5 + BULLET_HEIGHT < posY (moveBullet b)"
  shows "spec_bullet b (es, xs, sc) = (None, es, xs, sc)"
  using assms by (simp add: spec_bullet_def)

subsection \<open>The player bullet loop when there is no enemy\<close>

lemma bulletsBody_no_enemies:
  assumes "sceneRef t" "enemiesRef t = []" "k < length (bulletsRef t)"
  shows "bulletsBody k t =
     Some (if 5 + BULLET_HEIGHT < posY (moveBullet (bulletsRef t ! k))
           then t\<lparr>bulletsRef := splice1 k (bulletsRef t)\<rparr>
           else t\<lparr>bulletsRef := (bulletsRef t)[k := moveBullet (bulletsRef t ! k)]\<rparr>)"
  using assms by (simp add: bulletsBody_def Let_def splice1_update)

lemma updateBullets_no_enemies:
  assumes scene: "sceneRef g" and none: "enemiesRef g = []"
  shows "updateBullets g =
    Some (g\<lparr>bulletsRef := filter (\<lambda>b. \<not> 5 + BULLET_HEIGHT < posY b) (map moveBullet (bulletsRef g))\<rparr>)"
proof -
  define xs where "xs = bulletsRef g"
  define F where "F = (\<lambda>ys. filter (\<lambda>b. \<not> 5 + BULLET_HEIGHT < posY b) (map moveBullet ys))"
  define I where "I = (\<lambda>k t. t = g\<lparr>bulletsRef := take k xs @ F (drop k xs)\<rparr>)"
  have init: "I (length (bulletsRef g)) g"
    by (simp add: I_def xs_def F_def)
  have step: "\<exists>t'. bulletsBody k t = Some t' \<and> I k t'"
    if k: "k < length (bulletsRef g)" and inv: "I (Suc k) t" for k t
  proof -
    from k have kx: "k < length xs" by (simp add: xs_def)
    from inv have t: "t = g\<lparr>bulletsRef := take (Suc k) xs @ F (drop (Suc k) xs)\<rparr>"
      by (simp add: I_def)
    have dk: "drop k xs = xs ! k # drop (Suc k) xs"
      using kx by (simp add: Cons_nth_drop_Suc)
    have sc: "sceneRef t" "enemiesRef t = []" and len: "k < length (bulletsRef t)"
      using scene none kx by (simp_all add: t)
    have nth: "bulletsRef t ! k = xs ! k"
      using kx by (simp add: t nth_take_Suc_append)
    have sp1: "splice1 k (bulletsRef t) = take k xs @ F (drop (Suc k) xs)"
      using kx by (simp add: t splice1_take_Suc_append)
    have up1: "(bulletsRef t)[k := v] = take k xs @ v # F (drop (Suc k) xs)" for v
      using kx by (simp add: t update_take_Suc_append)
    note body = bulletsBody_no_enemies[OF sc len]
    show ?thesis
    proof (cases "5 + BULLET_HEIGHT < posY (moveBullet (xs ! k))")
      case True
      then have "bulletsBody k t = Some (t\<lparr>bulletsRef := splice1 k (bulletsRef t)\<rparr>)"
        by (simp add: body nth)
      moreover have "F (drop k xs) = F (drop (Suc k) xs)"
        using True by (simp add: dk F_def)
      ultimately show ?thesis
        by (simp add: I_def sp1) (simp add: t)
    next
      case False
      then have "bulletsBody k t =
          Some (t\<lparr>bulletsRef := (bulletsRef t)[k := moveBullet (xs ! k)]\<rparr>)"
        by (simp add: body nth)
      moreover have "F (drop k xs) = moveBullet (xs ! k) # F (drop (Suc k) xs)"
        using False by (simp add: dk F_def)
      ultimately show ?thesis
        by (simp add: I_def up1) (simp add: t)
    qed
  qed
  have "\<exists>t. forDown (length (bulletsRef g)) bulletsBody g = Some t \<and> I 0 t"
    using init step by (rule forDown_rule)
  then show ?thesis
    by (simp add: updateBullets_def I_def xs_def F_def)
qed

subsection \<open>The frame as a whole\<close>

lemma movePlayer_posY: "- 4.5 \<le> posY (movePlayer m c p)" "posY (movePlayer m c p) \<le> 4.5"
  by (simp_all add: movePlayer_def Let_def const_defs)

lemma enemyBulletHits_in_bounds:
  assumes "- 4.5 \<le> posY p" "enemyBulletHits b p"
  shows "\<not> posY b < - 5 - ENEMY_BULLET_HEIGHT"
proof -
  from assms(2) have "\<bar>posY b - posY p\<bar> < 0.8"
    by (simp add: enemyBulletHits_def overlap_def const_defs)
  with assms(1) have "- 5.3 < posY b" by linarith
  then show ?thesis by (simp add: const_defs)
qed

lemma animate_props:
  assumes run: "running g" and scene: "sceneRef g" and player: "playerRef g = Some p"
  defines "p' \<equiv> movePlayer (moveRef g) (canvasSize g) p"
  shows "\<exists>g2 g'. updateBullets (g\<lparr>playerRef := Some p'\<rparr>) = Some g2 \<and> animate g = Some g' \<and>
      frameResult g p' g2 g'"
proof -
  define g1 where "g1 = g\<lparr>playerRef := Some p'\<rparr>"
  have g1: "sceneRef g1" "playerRef g1 = Some p'"
    using scene by (simp_all add: g1_def)
  from updateBullets_props[OF g1(1)] obtain g2 where g2:
    "updateBullets g1 = Some g2" "bulletsFrame g1 g2"
    "subseq (bulletsRef g2) (map moveBullet (bulletsRef g1))"
    "set (enemiesRef g2) \<subseteq> set (enemiesRef g1)"
    "score g2 + int (length (enemiesRef g2)) = score g1 + int (length (enemiesRef g1))"
    "score g1 \<le> score g2"
    by blast
  have g2': "sceneRef g2" "playerRef g2 = Some p'"
    using g2(2) g1 by (simp_all add: bulletsFrame_def)
  define h1 where "h1 = length (filter (\<lambda>b. enemyBulletHits b p') (map moveEnemyBullet (enemyBulletsRef g)))"
  have hit_eq: "(\<not> posY b < - 5 - ENEMY_BULLET_HEIGHT \<and> enemyBulletHits b p') = enemyBulletHits b p'" for b
    using enemyBulletHits_in_bounds[of p' b] movePlayer_posY(1)[of "moveRef g" "canvasSize g" p]
    by (auto simp add: p'_def)
  from updateEnemyBullets_props[OF g2'] obtain g3 where g3:
    "updateEnemyBullets g2 = Some g3" "hitFrame g2 g3" "enemiesRef g3 = enemiesRef g2"
    "enemyBulletsRef g3 = filter (\<lambda>b. \<not> posY b < - 5 - ENEMY_BULLET_HEIGHT \<and> \<not> enemyBulletHits b p')
        (map moveEnemyBullet (enemyBulletsRef g2))"
    "explosions g3 = explosions g2 @ replicate h1 \<lparr>mesh = p', timer = 0.5\<rparr>"
    "lives g3 = lives g2 - int h1"
    "gameOver g3 = (gameOver g2 \<or> 0 < h1 \<and> lives g2 - int h1 \<le> 0)"
    using g2(2) unfolding hit_eq h1_def by (auto simp add: bulletsFrame_def g1_def)
  have g3': "sceneRef g3" "playerRef g3 = Some p'"
    using g3(2) g2' by (simp_all add: hitFrame_def)
  define h2 where "h2 = length (filter (\<lambda>e. enemyHits e p') (map moveEnemy (enemiesRef g2)))"
  from updateEnemies_props[OF g3'] obtain g4 where g4:
    "updateEnemies g3 = Some g4" "hitFrame g3 g4" "enemyBulletsRef g4 = enemyBulletsRef g3"
    "enemiesRef g4 = filter (\<lambda>e. \<not> enemyHits e p' \<and> \<not> posY e < - 5 - ENEMY_HEIGHT)
        (map moveEnemy (enemiesRef g2))"
    "explosions g4 = explosions g3 @ replicate h2 \<lparr>mesh = p', timer = 0.5\<rparr>"
    "lives g4 = lives g3 - int h2"
    "gameOver g4 = (gameOver g3 \<or> 0 < h2 \<and> lives g3 - int h2 \<le> 0)"
    unfolding h2_def g3(3) by blast
  have g4': "sceneRef g4"
    using g4(2) g3' by (simp add: hitFrame_def)
  define g5 where "g5 = g4\<lparr>explosions := filter (\<lambda>x. \<not> timer x \<le> 0)
              (map (\<lambda>x. x\<lparr>timer := timer x - 1 / 60\<rparr>) (explosions g4))\<rparr>"
  have g5: "updateExplosions g4 = Some g5"
    unfolding g5_def by (rule updateExplosions_eq[OF g4'])
  have an: "animate g = Some g5"
    using run player g2(1) g3(1) g4(1) g5 by (simp add: animate_def p'_def g1_def)
  have ex: "explosions g4 = explosions g2 @ replicate (h1 + h2) \<lparr>mesh = p', timer = 0.5\<rparr>"
    by (simp add: g4(5) g3(5) replicate_add)
  have lv: "lives g5 = lives g - int (h1 + h2)"
    using g4(6) g3(6) g2(2) by (simp add: g5_def bulletsFrame_def g1_def)
  have go: "gameOver g5 = (gameOver g \<or> 0 < h1 + h2 \<and> lives g - int (h1 + h2) \<le> 0)"
    using g4(7) g3(7) g4(6) g3(6) g2(2) by (auto simp add: g5_def bulletsFrame_def g1_def)
  have fr: "playerRef g5 = Some p' \<and> sceneRef g5 \<and> running g5 \<and>
      moveRef g5 = moveRef g \<and> canvasSize g5 = canvasSize g \<and>
      bulletsRef g5 = bulletsRef g2 \<and> score g5 = score g2"
    using g4(2) g3(2) g2(2) run scene by (simp add: g5_def hitFrame_def bulletsFrame_def g1_def)
  have lists: "enemyBulletsRef g5 = filter (\<lambda>b. \<not> posY b < - 5 - ENEMY_BULLET_HEIGHT \<and> \<not> enemyBulletHits b p')
                             (map moveEnemyBullet (enemyBulletsRef g))"
    "enemiesRef g5 = filter (\<lambda>e. \<not> enemyHits e p' \<and> \<not> posY e < - 5 - ENEMY_HEIGHT)
                        (map moveEnemy (enemiesRef g2))"
    using g4(3,4) g3(4) g2(2) by (simp_all add: g5_def bulletsFrame_def g1_def)
  have ex5: "explosions g5 = filter (\<lambda>x. \<not> timer x \<le> 0) (map (\<lambda>x. x\<lparr>timer := timer x - 1 / 60\<rparr>)
                            (explosions g2 @ replicate (h1 + h2) \<lparr>mesh = p', timer = 0.5\<rparr>))"
    unfolding ex[symmetric] by (simp add: g5_def)
  have b2: "subseq (bulletsRef g2) (map moveBullet (bulletsRef g))"
      "set (enemiesRef g2) \<subseteq> set (enemiesRef g)"
      "score g2 + int (length (enemiesRef g2)) = score g + int (length (enemiesRef g))"
      "score g \<le> score g2"
    using g2(3-6) by (simp_all add: g1_def)
  have h: "shotsOnPlayer p' (enemyBulletsRef g) = h1" "ramsOnPlayer p' (enemiesRef g2) = h2"
    by (simp_all add: shotsOnPlayer_def ramsOnPlayer_def h1_def h2_def filter_map o_def)
  have "frameResult g p' g2 g5"
    unfolding frameResult_def h
    using fr lists ex5 lv go b2 by blast
  with g2(1) an show ?thesis
    unfolding g1_def by blast
qed

section \<open>Properties of a frame\<close>


lemma animate_total:
  assumes "sceneRef g" "playerRef g = Some p"
  shows "\<exists>g'. animate g = Some g'"
proof (cases "running g")
  case True
  from animate_props[OF True assms] show ?thesis by blast
next
  case False
  then show ?thesis by (simp add: animate_def)
qed

lemma animate_round:
  assumes "sceneRef g" "playerRef g = Some p" "animate g = Some g'"
  shows "sceneRef g' \<and> playerRef g' \<noteq> None \<and> lives g' \<le> lives g \<and>
         (gameOver g \<longrightarrow> gameOver g') \<and>
         (\<not> gameOver g \<and> 0 < lives g \<longrightarrow> (gameOver g' \<longleftrightarrow> lives g' \<le> 0))"
proof (cases "running g")
  case True
  from animate_props[OF True assms(1,2)] assms(3) show ?thesis
    by (auto simp add: frameResult_def)
next
  case False
  then show ?thesis using assms by (auto simp add: animate_def)
qed

lemma effect_round:
  assumes "\<not> gameOver g \<longrightarrow> 0 < lives g" "gameOver g \<longrightarrow> sceneRef g \<and> playerRef g \<noteq> None"
    "effect g = Some g'"
  shows "sceneRef g' \<and> playerRef g' \<noteq> None \<and> (\<not> gameOver g' \<longrightarrow> 0 < lives g')"
proof (cases "gameOver g")
  case True
  then show ?thesis using assms by (simp add: effect_def)
next
  case False
  define g0 where "g0 = g\<lparr>sceneRef := True, playerRef := Some (Mesh 0 (- 4)),
                      enemiesRef := [], enemyBulletsRef := [], explosions := [],
                      moveRef := noMove, running := True\<rparr>"
  have an: "animate g0 = Some g'"
    using assms(3) False by (simp add: effect_def g0_def)
  have "sceneRef g0" "playerRef g0 = Some (Mesh 0 (- 4))" "\<not> gameOver g0" "0 < lives g0"
    using False assms(1) by (simp_all add: g0_def)
  with animate_round[OF this(1,2) an] show ?thesis by auto
qed

lemma reachable_round:
  assumes "reachable g"
  shows "sceneRef g \<and> playerRef g \<noteq> None \<and> (\<not> gameOver g \<longrightarrow> 0 < lives g)"
  using assms
proof (induction rule: reachable.induct)
  case (start c g)
  then show ?case
    by (intro effect_round[of "initial c"]) (simp_all add: initial_def)
next
  case (frame g g')
  then obtain p where "playerRef g = Some p" by auto
  with frame animate_round[of g p g'] show ?case by auto
next
  case (keyDown g e)
  then show ?case
    by (auto simp add: onKeyDown_def shoot_def Let_def)
next
  case (keyUp g e)
  then show ?case by (simp add: onKeyUp_def)
next
  case (spawn g r)
  then show ?case by (simp add: enemyInterval_def Let_def)
next
  case (fire g r)
  then show ?case by (auto simp add: enemyShootInterval_def split: option.splits)
next
  case (over g)
  then show ?case by (simp add: cleanup_def)
next
  case (again g g')
  then show ?case
    by (intro effect_round[of "handleRestart g"])
       (simp_all add: restart_def handleRestart_def)
next
  case (resized g c g')
  then show ?case
    by (intro effect_round[of "cleanup (g\<lparr>canvasSize := c\<rparr>)"])
       (simp_all add: resize_def cleanup_def)
qed

section \<open>Two rounds played out\<close>

lemma reachable_playGame: "reachable playGame"
proof (rule reachable.start)
  show "effect (initial \<lparr>width = 700, height = 1000\<rparr>) = Some playGame"
    by (simp add: effect_def initial_def animate_def updateBullets_def updateEnemyBullets_def
        updateEnemies_def updateExplosions_def movePlayer_def noMove_def leftBound_def
        rightBound_def viewWidth_def const_defs playGame_def)
qed

lemma calm_frame:
  assumes "running g" "sceneRef g" "playerRef g = Some p"
    and "enemiesRef g = []" "enemyBulletsRef g = []" "explosions g = []"
  shows "animate g =
    Some (g\<lparr>playerRef := Some (movePlayer (moveRef g) (canvasSize g) p),
            bulletsRef := filter (\<lambda>b. \<not> 5 + BULLET_HEIGHT < posY b) (map moveBullet (bulletsRef g))\<rparr>)"
proof -
  define g0 where "g0 = g\<lparr>playerRef := Some (movePlayer (moveRef g) (canvasSize g) p)\<rparr>"
  define g2 where "g2 = g0\<lparr>bulletsRef :=
      filter (\<lambda>b. \<not> 5 + BULLET_HEIGHT < posY b) (map moveBullet (bulletsRef g0))\<rparr>"
  have ub: "updateBullets g0 = Some g2"
    unfolding g2_def by (rule updateBullets_no_enemies) (simp_all add: g0_def assms)
  have rest: "updateEnemyBullets g2 = Some g2" "updateEnemies g2 = Some g2" "updateExplosions g2 = Some g2"
    by (simp_all add: updateEnemyBullets_def updateEnemies_def updateExplosions_def g2_def g0_def assms)
  have "animate g = Some g2"
    using assms(1,3) ub rest by (simp add: animate_def g0_def[symmetric])
  then show ?thesis by (simp add: g2_def g0_def)
qed

lemma animate_upState:
  assumes "- 4.5 \<le> y"
  shows "animate (upState y) = Some (upState (min 4.5 (y + 0.15)))"
proof -
  have "animate (upState y) =
    Some ((upState y)\<lparr>playerRef := Some (movePlayer (moveRef (upState y)) (canvasSize (upState y)) (Mesh 0 y)),
            bulletsRef := filter (\<lambda>b. \<not> 5 + BULLET_HEIGHT < posY b) (map moveBullet (bulletsRef (upState y)))\<rparr>)"
    by (rule calm_frame) (simp_all add: upState_def playGame_def)
  moreover have "movePlayer (moveRef (upState y)) (canvasSize (upState y)) (Mesh 0 y) = Mesh 0 (min 4.5 (y + 0.15))"
    using assms
    by (simp add: upState_def playGame_def movePlayer_def noMove_def leftBound_def rightBound_def
        viewWidth_def const_defs Let_def)
  ultimately show ?thesis
    by (simp add: upState_def playGame_def)
qed

lemma reachable_upState: "reachable (upState (min 4.5 (- 4 + 0.15 * real k)))"
proof (induction k)
  case 0
  have "onKeyDown \<lparr>key = ''ArrowUp'', code = ''ArrowUp''\<rparr> playGame = upState (- 4)"
    by (simp add: onKeyDown_def setKeys_def upState_def playGame_def Let_def)
  moreover have "reachable (onKeyDown \<lparr>key = ''ArrowUp'', code = ''ArrowUp''\<rparr> playGame)"
    by (rule reachable.keyDown[OF reachable_playGame]) (simp add: playGame_def)
  ultimately show ?case by simp
next
  case (Suc k)
  let ?y = "min 4.5 (- 4 + 0.15 * real k)"
  have "animate (upState ?y) = Some (upState (min 4.5 (?y + 0.15)))"
    by (rule animate_upState) simp
  moreover have "min 4.5 (?y + 0.15) = min 4.5 (- 4 + 0.15 * real (Suc k))"
    by (simp add: min_def algebra_simps)
  ultimately show ?case
    using reachable.frame[OF Suc.IH] by simp
qed

lemma reachable_up_top: "reachable (upState 4.5)"
  using reachable_upState[of 57] by simp

lemma reachable_ramGame: "reachable ramGame"
proof -
  let ?s = "\<lambda>g. enemyInterval (1 / 2) g"
  have r: "\<And>g. reachable g \<Longrightarrow> running g \<Longrightarrow> reachable (enemyInterval (1 / 2) g)"
    by (rule reachable.spawn) simp_all
  have run: "\<And>g. running (enemyInterval (1 / 2) g) = running g"
    by (simp add: enemyInterval_def Let_def)
  have r4: "reachable (?s (?s (?s (?s (upState 4.5)))))"
    by (intro r reachable_up_top) (simp_all add: run upState_def playGame_def)
  have "reachable (onKeyDown \<lparr>key = '' '', code = ''Space''\<rparr> (?s (?s (?s (?s (upState 4.5))))))"
    by (rule reachable.keyDown[OF r4]) (simp add: run upState_def playGame_def)
  moreover have "onKeyDown \<lparr>key = '' '', code = ''Space''\<rparr> (?s (?s (?s (?s (upState 4.5))))) = ramGame"
    by (simp add: onKeyDown_def setKeys_def shoot_def enemyInterval_def upState_def playGame_def
        ramGame_def leftBullet_def rightBullet_def centerBullet_def viewWidth_def noMove_def
        const_defs Let_def)
  ultimately show ?thesis by simp
qed

lemma animate_ramGame: "animate ramGame = Some overGame"
  by (simp add: ramGame_def overGame_def upState_def playGame_def eval_defs)

lemma reachable_overGame: "reachable overGame"
  using reachable.frame[OF reachable_ramGame animate_ramGame] .

lemma animate_flyState:
  assumes "k < 44"
  shows "animate (flyState k) = Some (flyState (Suc k))"
proof -
  have "animate (flyState k) =
    Some ((flyState k)\<lparr>playerRef := Some (movePlayer (moveRef (flyState k)) (canvasSize (flyState k)) (Mesh 0 (- 4))),
            bulletsRef := filter (\<lambda>b. \<not> 5 + BULLET_HEIGHT < posY b) (map moveBullet (bulletsRef (flyState k)))\<rparr>)"
    by (rule calm_frame) (simp_all add: flyState_def playGame_def)
  moreover have "movePlayer (moveRef (flyState k)) (canvasSize (flyState k)) (Mesh 0 (- 4)) = Mesh 0 (- 4)"
    by (simp add: flyState_def playGame_def movePlayer_def noMove_def leftBound_def rightBound_def
        viewWidth_def const_defs Let_def)
  moreover have "real k \<le> 43" using assms by simp
  then have "filter (\<lambda>b. \<not> 5 + BULLET_HEIGHT < posY b) (map moveBullet (bulletsRef (flyState k)))
      = bulletsRef (flyState (Suc k))"
    by (simp add: flyState_def playGame_def moveBullet_def const_defs algebra_simps)
  ultimately show ?thesis
    by (simp add: flyState_def playGame_def)
qed

lemma reachable_flyState: "k \<le> 44 \<Longrightarrow> reachable (flyState k)"
proof (induction k)
  case 0
  have "onKeyDown \<lparr>key = '' '', code = ''Space''\<rparr> playGame = flyState 0"
    by (simp add: onKeyDown_def setKeys_def shoot_def flyState_def playGame_def Let_def
        leftBullet_def rightBullet_def centerBullet_def const_defs)
  moreover have "reachable (onKeyDown \<lparr>key = '' '', code = ''Space''\<rparr> playGame)"
    by (rule reachable.keyDown[OF reachable_playGame]) (simp add: playGame_def)
  ultimately show ?case by simp
next
  case (Suc k)
  then have "reachable (flyState k)" "k < 44" by simp_all
  from reachable.frame[OF this(1) animate_flyState[OF this(2)]] show ?case .
qed

lemma reachable_edgeGame: "reachable edgeGame"
proof -
  have "reachable (enemyInterval (1 / 2) (flyState 44))"
    by (rule reachable.spawn[OF reachable_flyState]) (simp_all add: flyState_def playGame_def)
  moreover have "enemyInterval (1 / 2) (flyState 44) = edgeGame"
    by (simp add: enemyInterval_def flyState_def edgeGame_def playGame_def viewWidth_def
        const_defs Let_def)
  ultimately show ?thesis by simp
qed

section \<open>Lives, score and kills\<close>

text \<open>
  Claim C1. In every state the component can reach, a frame returns and never raises
  \<open>lives\<close>; and while the round is not over, the frame sets \<open>gameOver\<close> exactly when it
  leaves \<open>lives\<close> at 0 or below: in that frame, not in a later one. The witness is
  the frame of \<open>ramGame\<close> in which three enemies ram the ship.
\<close>

theorem lives_only_decrease_gameOver_on_time:
  assumes "reachable g"
  shows "\<exists>g'. animate g = Some g' \<and> lives g' \<le> lives g \<and>
           (\<not> gameOver g \<longrightarrow> (gameOver g' \<longleftrightarrow> lives g' \<le> 0))"
proof -
  from reachable_round[OF assms] obtain p where
    r: "sceneRef g" "playerRef g = Some p" "\<not> gameOver g \<longrightarrow> 0 < lives g"
    by auto
  from animate_total[OF r(1,2)] obtain g' where g': "animate g = Some g'" ..
  from animate_round[OF r(1,2) g'] r(3) g' show ?thesis by auto
qed

theorem lives_only_decrease_gameOver_on_time_witness:
  "reachable ramGame \<and> \<not> gameOver ramGame \<and> lives ramGame = 3 \<and>
   animate ramGame = Some overGame \<and> lives overGame = 0 \<and> gameOver overGame"
proof -
  have "\<not> gameOver ramGame" "lives ramGame = 3" "lives overGame = 0" "gameOver overGame"
    by (simp_all add: ramGame_def overGame_def upState_def playGame_def)
  with lives_only_decrease_gameOver_on_time[OF reachable_ramGame] reachable_ramGame animate_ramGame
  show ?thesis by simp
qed

text \<open>
  Claim C2. A frame that runs never lowers \<open>score\<close>, and raises it by exactly the number
  of enemies that the player bullet loop removes (\<open>g2\<close> is the state that loop returns).
  The enemies removed later in the frame, for ramming the player or for leaving at the
  bottom, add nothing.
\<close>

theorem score_counts_kills:
  assumes "running g" "sceneRef g" "playerRef g = Some p"
  shows "\<exists>g2 g'. updateBullets (g\<lparr>playerRef := Some (movePlayer (moveRef g) (canvasSize g) p)\<rparr>) = Some g2 \<and>
           animate g = Some g' \<and> score g \<le> score g' \<and>
           score g' = score g + (int (length (enemiesRef g)) - int (length (enemiesRef g2)))"
proof -
  from animate_props[OF assms] obtain g2 g' where
    "updateBullets (g\<lparr>playerRef := Some (movePlayer (moveRef g) (canvasSize g) p)\<rparr>) = Some g2"
    "animate g = Some g'"
    "frameResult g (movePlayer (moveRef g) (canvasSize g) p) g2 g'"
    by blast
  then show ?thesis by (auto simp add: frameResult_def)
qed

theorem score_counts_kills_witness:
  "running duelGame \<and> sceneRef duelGame \<and> playerRef duelGame = Some (Mesh 0 (- 4)) \<and>
   updateBullets (duelGame\<lparr>playerRef := Some (movePlayer (moveRef duelGame) (canvasSize duelGame) (Mesh 0 (- 4)))\<rparr>)
     = Some (duelGame\<lparr>bulletsRef := [], enemiesRef := [], score := 1,
               explosions := [\<lparr>mesh = Mesh 0 5, timer = 0.35\<rparr>]\<rparr>) \<and>
   (\<exists>g'. animate duelGame = Some g' \<and> score g' = 1)"
proof -
  have h: "running duelGame" "sceneRef duelGame" "playerRef duelGame = Some (Mesh 0 (- 4))"
    by (simp_all add: duelGame_def playGame_def)
  have u: "updateBullets (duelGame\<lparr>playerRef := Some (movePlayer (moveRef duelGame) (canvasSize duelGame) (Mesh 0 (- 4)))\<rparr>)
     = Some (duelGame\<lparr>bulletsRef := [], enemiesRef := [], score := 1,
               explosions := [\<lparr>mesh = Mesh 0 5, timer = 0.35\<rparr>]\<rparr>)"
    by (simp add: duelGame_def playGame_def eval_defs)
  from score_counts_kills[OF h] u h show ?thesis
    by (auto simp add: duelGame_def playGame_def)
qed

text \<open>
  Claim C4. Hits on the player in one frame are not merged: with three lives, a frame in
  which exactly two enemy bullets pass the box test against the player, and no enemy does,
  ends with one life and the round still on.
\<close>

theorem two_shots_cost_two_lives:
  assumes "running g" "sceneRef g" "playerRef g = Some p"
    and "lives g = 3" "\<not> gameOver g"
    and "shotsOnPlayer (movePlayer (moveRef g) (canvasSize g) p) (enemyBulletsRef g) = 2"
    and "ramsOnPlayer (movePlayer (moveRef g) (canvasSize g) p) (enemiesRef g) = 0"
  shows "\<exists>g'. animate g = Some g' \<and> lives g' = 1 \<and> \<not> gameOver g'"
proof -
  define p' where "p' = movePlayer (moveRef g) (canvasSize g) p"
  from animate_props[OF assms(1-3), folded p'_def] obtain g2 g' where
    a: "animate g = Some g'" and f: "frameResult g p' g2 g'"
    by blast
  have "set (enemiesRef g2) \<subseteq> set (enemiesRef g)"
    using f by (simp add: frameResult_def)
  then have "ramsOnPlayer p' (enemiesRef g2) = 0"
    using assms(7) by (auto simp add: ramsOnPlayer_def filter_empty_conv p'_def)
  with a f assms(4-6) show ?thesis
    by (simp add: p'_def frameResult_def)
qed

theorem two_shots_cost_two_lives_witness:
  "running twoShotsGame \<and> lives twoShotsGame = 3 \<and> \<not> gameOver twoShotsGame \<and>
   shotsOnPlayer (Mesh 0 (- 4)) (enemyBulletsRef twoShotsGame) = 2 \<and>
   ramsOnPlayer (Mesh 0 (- 4)) (enemiesRef twoShotsGame) = 0 \<and>
   (\<exists>g'. animate twoShotsGame = Some g' \<and> lives g' = 1 \<and> \<not> gameOver g')"
proof -
  have h: "running twoShotsGame" "sceneRef twoShotsGame" "playerRef twoShotsGame = Some (Mesh 0 (- 4))"
    "lives twoShotsGame = 3" "\<not> gameOver twoShotsGame"
    by (simp_all add: twoShotsGame_def playGame_def)
  have mp: "movePlayer (moveRef twoShotsGame) (canvasSize twoShotsGame) (Mesh 0 (- 4)) = Mesh 0 (- 4)"
    by (simp add: twoShotsGame_def playGame_def eval_defs)
  have two: "shotsOnPlayer (Mesh 0 (- 4)) (enemyBulletsRef twoShotsGame) = 2"
    by (simp add: twoShotsGame_def playGame_def shotsOnPlayer_def eval_defs)
  have none: "ramsOnPlayer (Mesh 0 (- 4)) (enemiesRef twoShotsGame) = 0"
    by (simp add: twoShotsGame_def playGame_def ramsOnPlayer_def)
  from two_shots_cost_two_lives[OF h, unfolded mp, OF two none] h two none show ?thesis
    by simp
qed

text \<open>
  Claim C10. \<open>lives\<close> is not clamped: whatever its value, a frame lowers it by one for
  every enemy bullet and every enemy that hits the player, and \<open>gameOver\<close> is set as soon
  as a hit leaves it at 0 or below. The witness is the frame with two hits on the last
  life, which ends at \<open>lives = - 1\<close>.
\<close>

theorem lives_not_clamped:
  assumes "running g" "sceneRef g" "playerRef g = Some p"
  shows "\<exists>g2 g'. updateBullets (g\<lparr>playerRef := Some (movePlayer (moveRef g) (canvasSize g) p)\<rparr>) = Some g2 \<and>
           animate g = Some g' \<and>
           lives g' = lives g - int (shotsOnPlayer (movePlayer (moveRef g) (canvasSize g) p) (enemyBulletsRef g))
                              - int (ramsOnPlayer (movePlayer (moveRef g) (canvasSize g) p) (enemiesRef g2)) \<and>
           gameOver g' = (gameOver g \<or> (lives g' < lives g \<and> lives g' \<le> 0))"
proof -
  from animate_props[OF assms] obtain g2 g' where
    "updateBullets (g\<lparr>playerRef := Some (movePlayer (moveRef g) (canvasSize g) p)\<rparr>) = Some g2"
    "animate g = Some g'"
    "frameResult g (movePlayer (moveRef g) (canvasSize g) p) g2 g'"
    by blast
  then show ?thesis by (auto simp add: frameResult_def)
qed

theorem lives_not_clamped_witness:
  "running lastLifeGame \<and> lives lastLifeGame = 1 \<and>
   shotsOnPlayer (Mesh 0 (- 4)) (enemyBulletsRef lastLifeGame) = 2 \<and>
   (\<exists>g'. animate lastLifeGame = Some g' \<and> lives g' = - 1 \<and> gameOver g')"
proof -
  have h: "running lastLifeGame" "sceneRef lastLifeGame" "playerRef lastLifeGame = Some (Mesh 0 (- 4))"
    by (simp_all add: lastLifeGame_def twoShotsGame_def playGame_def)
  have mp: "movePlayer (moveRef lastLifeGame) (canvasSize lastLifeGame) (Mesh 0 (- 4)) = Mesh 0 (- 4)"
    by (simp add: lastLifeGame_def twoShotsGame_def playGame_def eval_defs)
  have u: "updateBullets (lastLifeGame\<lparr>playerRef := Some (Mesh 0 (- 4))\<rparr>) = Some lastLifeGame"
    by (simp add: lastLifeGame_def twoShotsGame_def playGame_def updateBullets_def)
  have two: "shotsOnPlayer (Mesh 0 (- 4)) (enemyBulletsRef lastLifeGame) = 2"
    by (simp add: lastLifeGame_def twoShotsGame_def playGame_def shotsOnPlayer_def eval_defs)
  have l: "lives lastLifeGame = 1" "ramsOnPlayer (Mesh 0 (- 4)) (enemiesRef lastLifeGame) = 0"
    by (simp_all add: lastLifeGame_def twoShotsGame_def playGame_def ramsOnPlayer_def)
  from lives_not_clamped[OF h] show ?thesis
    unfolding mp u using two l h by auto
qed


text \<open>
  Claim C3 as stated: a player bullet and an enemy that pass the box test are both removed
  in the same step. The loop moves the bullet first, and a bullet that this move takes
  above \<open>5 + BULLET_HEIGHT\<close> is removed before any enemy is tested (\<open>continue\<close>, lines
  550--554). In \<open>edgeGame\<close> the centre bullet at \<open>y = 5.7\<close> and the enemy just spawned at
  \<open>y = 5.45\<close> overlap before and after the move; the frame removes the bullet only, and
  the score does not change.
\<close>

theorem bullet_kills_first_match_counterexample:
  "reachable edgeGame \<and>
   bulletHits (bulletsRef edgeGame ! 2) (enemiesRef edgeGame ! 0) \<and>
   bulletHits (moveBullet (bulletsRef edgeGame ! 2)) (enemiesRef edgeGame ! 0) \<and>
   animate edgeGame =
     Some (edgeGame\<lparr>bulletsRef := [Mesh (- 0.575) 4.8, Mesh 0.575 4.8],
                       enemiesRef := [Mesh 0 5.41]\<rparr>)"
proof -
  have "bulletHits (bulletsRef edgeGame ! 2) (enemiesRef edgeGame ! 0) \<and>
   bulletHits (moveBullet (bulletsRef edgeGame ! 2)) (enemiesRef edgeGame ! 0) \<and>
   animate edgeGame =
     Some (edgeGame\<lparr>bulletsRef := [Mesh (- 0.575) 4.8, Mesh 0.575 4.8],
                       enemiesRef := [Mesh 0 5.41]\<rparr>)"
    by (simp add: edgeGame_def playGame_def eval_defs)
  with reachable_edgeGame show ?thesis by simp
qed

text \<open>
  A second way in which the claim fails: the bullets of a frame share the adversaries. In
  \<open>volleyGame\<close> the bullet at index 1 takes the adversary at \<open>(0.1, 5.2)\<close>; the bullet at
  index 0, handled after it, is inside the upper bound and passes the box test against
  that adversary too, and stays, because the adversary is no longer there.

  Claim C3, amended: in every frame that runs, the player bullet loop does what
  \<open>spec_bullets\<close> says. The bullets are handled from the last to the first; a bullet
  that is still inside the upper bound after its move and passes the box test against an
  adversary that no bullet handled before it in that frame has destroyed is removed in
  that frame together with exactly one adversary, the first match of a scan from the last
  live adversary to the first; one explosion with timer 0.35 is pushed at that
  adversary's position and the score goes up by 1. The scan stops there, so a bullet
  destroys at most one adversary, and an adversary falls to at most one bullet. The kept
  bullets and the score are those of the end of the frame, and every enemy left at the
  end of the frame is one the bullet pass left, moved down. (\<open>spec_bullet_hit\<close>,
  \<open>spec_bullet_miss\<close> and \<open>spec_bullet_out\<close> read the three cases off the pass.)
\<close>

theorem bullets_kill_first_live_match:
  assumes "running g" "sceneRef g" "playerRef g = Some p"
  shows "\<exists>g2 g'. updateBullets (g\<lparr>playerRef := Some (movePlayer (moveRef g) (canvasSize g) p)\<rparr>) = Some g2 \<and>
           animate g = Some g' \<and>
           (bulletsRef g2, enemiesRef g2, explosions g2, score g2) =
             spec_bullets (bulletsRef g) (enemiesRef g, explosions g, score g) \<and>
           bulletsRef g' = bulletsRef g2 \<and> score g' = score g2 \<and>
           set (enemiesRef g') \<subseteq> moveEnemy ` set (enemiesRef g2)"
proof -
  define g1 where "g1 = g\<lparr>playerRef := Some (movePlayer (moveRef g) (canvasSize g) p)\<rparr>"
  from animate_props[OF assms] obtain g2 g' where
    u: "updateBullets g1 = Some g2" and a: "animate g = Some g'"
    and f: "frameResult g (movePlayer (moveRef g) (canvasSize g) p) g2 g'"
    unfolding g1_def by blast
  have "sceneRef g1" using assms(2) by (simp add: g1_def)
  from updateBullets_spec[OF this] u
  have "(bulletsRef g2, enemiesRef g2, explosions g2, score g2) =
      spec_bullets (bulletsRef g1) (enemiesRef g1, explosions g1, score g1)"
    by (auto split: prod.splits)
  then have sp: "(bulletsRef g2, enemiesRef g2, explosions g2, score g2) =
      spec_bullets (bulletsRef g) (enemiesRef g, explosions g, score g)"
    by (simp add: g1_def)
  have "bulletsRef g' = bulletsRef g2" "score g' = score g2"
    "set (enemiesRef g') \<subseteq> moveEnemy ` set (enemiesRef g2)"
    using f by (auto simp add: frameResult_def)
  with u a sp show ?thesis
    unfolding g1_def by blast
qed

theorem bullets_kill_first_live_match_witness:
  "running volleyGame \<and> sceneRef volleyGame \<and> playerRef volleyGame = Some (Mesh 0 (- 4)) \<and>
   bulletHits (moveBullet (Mesh 0.45 4.5)) (Mesh 0.1 5.2) \<and>
   bulletHits (moveBullet (Mesh 0 4.9)) (Mesh 0 5) \<and>
   bulletHits (moveBullet (Mesh 0 5.7)) (Mesh 0.1 5.2) \<and>
   spec_bullets (bulletsRef volleyGame) (enemiesRef volleyGame, explosions volleyGame, score volleyGame) =
     ([Mesh 0.45 4.7], [Mesh 0 5], [\<lparr>mesh = Mesh 0.1 5.2, timer = 0.35\<rparr>], 1) \<and>
   animate volleyGame =
     Some (volleyGame\<lparr>bulletsRef := [Mesh 0.45 4.7], enemiesRef := [Mesh 0 4.96],
             explosions := [\<lparr>mesh = Mesh 0.1 5.2, timer = 1 / 3\<rparr>], score := 1\<rparr>)"
proof -
  have h: "running volleyGame" "sceneRef volleyGame" "playerRef volleyGame = Some (Mesh 0 (- 4))"
    by (simp_all add: volleyGame_def playGame_def)
  have hits: "bulletHits (moveBullet (Mesh 0.45 4.5)) (Mesh 0.1 5.2)"
    "bulletHits (moveBullet (Mesh 0 4.9)) (Mesh 0 5)"
    "bulletHits (moveBullet (Mesh 0 5.7)) (Mesh 0.1 5.2)"
    by (simp_all add: moveBullet_def bulletHits_def overlap_def const_defs)
  have sp: "spec_bullets (bulletsRef volleyGame) (enemiesRef volleyGame, explosions volleyGame, score volleyGame) =
     ([Mesh 0.45 4.7], [Mesh 0 5], [\<lparr>mesh = Mesh 0.1 5.2, timer = 0.35\<rparr>], 1)"
    by (simp add: volleyGame_def playGame_def spec_bullet_def moveBullet_def bulletHits_def
        overlap_def splice1_def const_defs)
  from bullets_kill_first_live_match[OF h] obtain g2 g' where
    u: "updateBullets (volleyGame\<lparr>playerRef := Some (movePlayer (moveRef volleyGame) (canvasSize volleyGame) (Mesh 0 (- 4)))\<rparr>) = Some g2"
    and a: "animate volleyGame = Some g'"
    and r: "(bulletsRef g2, enemiesRef g2, explosions g2, score g2) =
             spec_bullets (bulletsRef volleyGame) (enemiesRef volleyGame, explosions volleyGame, score volleyGame)"
    by blast
  have "animate volleyGame =
     Some (volleyGame\<lparr>bulletsRef := [Mesh 0.45 4.7], enemiesRef := [Mesh 0 4.96],
             explosions := [\<lparr>mesh = Mesh 0.1 5.2, timer = 1 / 3\<rparr>], score := 1\<rparr>)"
    by (simp add: volleyGame_def playGame_def eval_defs)
  with h hits sp show ?thesis by simp
qed

section \<open>Player movement\<close>

text \<open>
  Claim C5 as stated: after the movement phase the player is inside
  \<open>[- viewWidth / 2 + PLAYER_WIDTH / 2, viewWidth / 2 - PLAYER_WIDTH / 2]\<close> on every
  frame. On a canvas whose view is narrower than the ship that interval is empty, and
  \<open>Math.max(leftBound, Math.min(rightBound, x))\<close> returns \<open>leftBound\<close>, which lies to
  the right of the upper end: so already in the first frame, which the effect runs itself.
\<close>

theorem player_stays_inside_counterexample:
  "effect (initial narrowCanvas) =
     Some ((initial narrowCanvas)\<lparr>sceneRef := True, playerRef := Some (Mesh (1 / 60) (- 4)), running := True\<rparr>) \<and>
   \<not> (1 / 60 \<le> viewWidth narrowCanvas / 2 - PLAYER_WIDTH / 2)"
  by (simp add: narrowCanvas_def initial_def effect_def eval_defs)

text \<open>
  Claim C5, amended: a frame that runs leaves the player, whatever keys are held and on
  every canvas, with
  \<open>- viewHeight / 2 + PLAYER_HEIGHT / 2 \<le> y \<le> viewHeight / 2 - PLAYER_HEIGHT / 2\<close>; and
  on a canvas of positive height whose view is at least as wide as the ship, also with
  \<open>- viewWidth / 2 + PLAYER_WIDTH / 2 \<le> x \<le> viewWidth / 2 - PLAYER_WIDTH / 2\<close>. The
  loops that follow the movement do not write the player.
\<close>

theorem player_stays_inside:
  assumes "running g" "sceneRef g" "playerRef g = Some p"
  shows "\<exists>g' q. animate g = Some g' \<and> playerRef g' = Some q \<and>
           q = movePlayer (moveRef g) (canvasSize g) p \<and>
           - viewHeight / 2 + PLAYER_HEIGHT / 2 \<le> posY q \<and>
           posY q \<le> viewHeight / 2 - PLAYER_HEIGHT / 2 \<and>
           (0 < height (canvasSize g) \<and> PLAYER_WIDTH \<le> viewWidth (canvasSize g) \<longrightarrow>
              - viewWidth (canvasSize g) / 2 + PLAYER_WIDTH / 2 \<le> posX q \<and>
              posX q \<le> viewWidth (canvasSize g) / 2 - PLAYER_WIDTH / 2)"
proof -
  define q where "q = movePlayer (moveRef g) (canvasSize g) p"
  from animate_props[OF assms(1-3), folded q_def] obtain g2 g' where
    a: "animate g = Some g'" and f: "frameResult g q g2 g'"
    by blast
  have x: "- viewWidth (canvasSize g) / 2 + PLAYER_WIDTH / 2 \<le> posX q \<and>
           posX q \<le> viewWidth (canvasSize g) / 2 - PLAYER_WIDTH / 2"
    if "PLAYER_WIDTH \<le> viewWidth (canvasSize g)"
    using that by (simp add: q_def movePlayer_def Let_def leftBound_def rightBound_def)
  have y: "- viewHeight / 2 + PLAYER_HEIGHT / 2 \<le> posY q \<and>
           posY q \<le> viewHeight / 2 - PLAYER_HEIGHT / 2"
    by (simp add: q_def movePlayer_def Let_def const_defs)
  from a f x y show ?thesis
    unfolding q_def by (simp add: frameResult_def)
qed

theorem player_stays_inside_witness:
  "running playGame \<and> 0 < height (canvasSize playGame) \<and>
   PLAYER_WIDTH \<le> viewWidth (canvasSize playGame) \<and>
   (\<exists>g'. animate (playGame\<lparr>moveRef := \<lparr>left = True, right = False, up = True, down = True\<rparr>,
                           playerRef := Some (Mesh (- 3.2) (- 4.5))\<rparr>) = Some g' \<and>
      playerRef g' = Some (Mesh (- 3.25) (- 4.5)) \<and>
      - viewWidth (canvasSize playGame) / 2 + PLAYER_WIDTH / 2 \<le> - 3.25 \<and>
      - viewHeight / 2 + PLAYER_HEIGHT / 2 \<le> - 4.5)"
proof -
  let ?g = "playGame\<lparr>moveRef := \<lparr>left = True, right = False, up = True, down = True\<rparr>,
                           playerRef := Some (Mesh (- 3.2) (- 4.5))\<rparr>"
  have h: "running ?g" "sceneRef ?g" "playerRef ?g = Some (Mesh (- 3.2) (- 4.5))"
    by (simp_all add: playGame_def)
  have w: "0 < height (canvasSize ?g)" "PLAYER_WIDTH \<le> viewWidth (canvasSize ?g)"
    by (simp_all add: playGame_def viewWidth_def const_defs)
  have mp: "movePlayer (moveRef ?g) (canvasSize ?g) (Mesh (- 3.2) (- 4.5)) = Mesh (- 3.25) (- 4.5)"
    by (simp add: playGame_def eval_defs)
  from player_stays_inside[OF h] h w show ?thesis
    unfolding mp by (auto simp add: playGame_def)
qed

section \<open>Firing\<close>

text \<open>
  Claim C6. In every state the component can reach, one call of \<open>shoot\<close> appends
  exactly three bullets to the player bullet array: at the left cannon (0.575 to the left,
  0.2 below the player), at the right cannon (0.575 to the right, 0.2 below) and at the
  nose (0.9 above). A key press calls \<open>shoot\<close>
  exactly when it is the space bar. In the bullet loop of a frame every bullet of the
  array, the three new ones included, rises by the same \<open>BULLET_SPEED\<close>: what is left of
  the array is a subsequence of the old one with that step applied.
\<close>

theorem fire_three_bullets:
  assumes "reachable g"
  shows "\<exists>p. playerRef g = Some p \<and>
         bulletsRef (shoot g) = bulletsRef g @ [leftBullet p, rightBullet p, centerBullet p] \<and>
         leftBullet p = Mesh (posX p - 0.575) (posY p - 0.2) \<and>
         rightBullet p = Mesh (posX p + 0.575) (posY p - 0.2) \<and>
         centerBullet p = Mesh (posX p) (posY p + 0.9) \<and>
         (\<forall>e. bulletsRef (onKeyDown e g) =
            (if key e = '' '' \<or> code e = ''Space'' then bulletsRef (shoot g) else bulletsRef g)) \<and>
         (\<exists>t. updateBullets (shoot g) = Some t \<and>
            subseq (bulletsRef t)
              (map (\<lambda>b. Mesh (posX b) (posY b + BULLET_SPEED))
                 (bulletsRef g @ [leftBullet p, rightBullet p, centerBullet p])))"
proof -
  from reachable_round[OF assms] obtain p where scene: "sceneRef g" and player: "playerRef g = Some p"
    by auto
  have sh: "bulletsRef (shoot g) = bulletsRef g @ [leftBullet p, rightBullet p, centerBullet p]"
    using scene player by (simp add: shoot_def)
  have off: "leftBullet p = Mesh (posX p - 0.575) (posY p - 0.2)"
    "rightBullet p = Mesh (posX p + 0.575) (posY p - 0.2)"
    "centerBullet p = Mesh (posX p) (posY p + 0.9)"
    by (simp_all add: leftBullet_def rightBullet_def centerBullet_def const_defs)
  have key: "bulletsRef (onKeyDown e g) =
            (if key e = '' '' \<or> code e = ''Space'' then bulletsRef (shoot g) else bulletsRef g)" for e
    using scene player by (simp add: onKeyDown_def shoot_def Let_def)
  have "sceneRef (shoot g)" using scene player by (simp add: shoot_def)
  from updateBullets_props[OF this] obtain t where
    "updateBullets (shoot g) = Some t" "subseq (bulletsRef t) (map moveBullet (bulletsRef (shoot g)))"
    by blast
  then have "\<exists>t. updateBullets (shoot g) = Some t \<and>
            subseq (bulletsRef t)
              (map (\<lambda>b. Mesh (posX b) (posY b + BULLET_SPEED))
                 (bulletsRef g @ [leftBullet p, rightBullet p, centerBullet p]))"
    unfolding sh moveBullet_def[abs_def] by blast
  with player sh off key show ?thesis by blast
qed

theorem fire_three_bullets_witness:
  "reachable playGame \<and> playerRef playGame = Some (Mesh 0 (- 4)) \<and>
   bulletsRef (onKeyDown \<lparr>key = '' '', code = ''Space''\<rparr> playGame) =
     [Mesh (- 0.575) (- 4.2), Mesh 0.575 (- 4.2), Mesh 0 (- 3.1)] \<and>
   updateBullets (shoot playGame) =
     Some (playGame\<lparr>bulletsRef := [Mesh (- 0.575) (- 4), Mesh 0.575 (- 4), Mesh 0 (- 2.9)]\<rparr>)"
proof -
  have h: "playerRef playGame = Some (Mesh 0 (- 4))"
    by (simp add: playGame_def)
  have u: "updateBullets (shoot playGame) =
     Some (playGame\<lparr>bulletsRef := [Mesh (- 0.575) (- 4), Mesh 0.575 (- 4), Mesh 0 (- 2.9)]\<rparr>)"
    by (simp add: playGame_def shoot_def leftBullet_def rightBullet_def centerBullet_def
        updateBullets_def bulletsBody_def moveBullet_def const_defs)
  from fire_three_bullets[OF reachable_playGame] h have
    "bulletsRef (onKeyDown \<lparr>key = '' '', code = ''Space''\<rparr> playGame) =
       bulletsRef playGame @ [Mesh (0 - 0.575) (- 4 - 0.2), Mesh (0 + 0.575) (- 4 - 0.2), Mesh 0 (- 4 + 0.9)]"
    by simp
  with h u reachable_playGame show ?thesis
    by (simp add: playGame_def)
qed

section \<open>Explosions\<close>

text \<open>
  Claim C7 as stated: the countdown of every explosion goes down by the time the frame
  took. \<open>animate\<close> is not given that time and subtracts \<open>1 / 60\<close>; a frame that took
  1/30 s is where the two differ.
\<close>

theorem explosions_fixed_tick_counterexample:
  "updateExplosions boomGame \<noteq>
     Some (boomGame\<lparr>explosions := spec_updateExplosions (1 / 30) (explosions boomGame)\<rparr>)"
  by (simp add: boomGame_def playGame_def spec_updateExplosions_def eval_defs)

text \<open>
  Claim C7, amended: in every frame the countdown of every explosion goes down by the fixed
  step 1/60 s, whatever time has passed, and an explosion whose countdown has reached 0 or
  less is removed in that frame.
\<close>

theorem explosions_fixed_tick:
  assumes "sceneRef g"
  shows "updateExplosions g = Some (g\<lparr>explosions := spec_updateExplosions (1 / 60) (explosions g)\<rparr>)"
  using updateExplosions_eq[OF assms] by (simp add: spec_updateExplosions_def)

theorem explosions_fixed_tick_witness:
  "sceneRef boomGame \<and>
   updateExplosions boomGame = Some (boomGame\<lparr>explosions := [\<lparr>mesh = Mesh 0 5, timer = 1 / 3\<rparr>]\<rparr>)"
proof -
  have h: "sceneRef boomGame" by (simp add: boomGame_def playGame_def)
  from explosions_fixed_tick[OF h] h show ?thesis
    by (simp add: boomGame_def playGame_def spec_updateExplosions_def)
qed

section \<open>Restart\<close>

text \<open>
  What a click on Restart leaves: score 0, three lives, a player at the start position
  (clamped), no enemy, no enemy bullet, no explosion, and every player bullet of the round
  before that one more step does not take out of the view.
\<close>

lemma restart_resets:
  assumes "gameOver g"
  shows "restart g =
    Some (g\<lparr>sceneRef := True,
            playerRef := Some (movePlayer noMove (canvasSize g) (Mesh 0 (- 4))),
            bulletsRef := filter (\<lambda>b. \<not> 5 + BULLET_HEIGHT < posY b) (map moveBullet (bulletsRef g)),
            enemiesRef := [], enemyBulletsRef := [], explosions := [], moveRef := noMove,
            running := True, score := 0, lives := 3, gameOver := False\<rparr>)"
proof -
  define g1 where "g1 = (handleRestart g)\<lparr>sceneRef := True, playerRef := Some (Mesh 0 (- 4)),
                      enemiesRef := [], enemyBulletsRef := [], explosions := [],
                      moveRef := noMove, running := True\<rparr>"
  define g0 where "g0 = g1\<lparr>playerRef := Some (movePlayer (moveRef g1) (canvasSize g1) (Mesh 0 (- 4)))\<rparr>"
  define g2 where "g2 = g0\<lparr>bulletsRef :=
      filter (\<lambda>b. \<not> 5 + BULLET_HEIGHT < posY b) (map moveBullet (bulletsRef g0))\<rparr>"
  have eff: "restart g = animate g1"
    by (simp add: restart_def effect_def handleRestart_def g1_def)
  have ub: "updateBullets g0 = Some g2"
    unfolding g2_def by (rule updateBullets_no_enemies) (simp_all add: g0_def g1_def)
  have rest: "updateEnemyBullets g2 = Some g2" "updateEnemies g2 = Some g2" "updateExplosions g2 = Some g2"
    by (simp_all add: updateEnemyBullets_def updateEnemies_def updateExplosions_def g2_def g0_def g1_def)
  have r: "running g1" "playerRef g1 = Some (Mesh 0 (- 4))"
    by (simp_all add: g1_def)
  have "animate g1 = Some g2"
    using r ub rest by (simp add: animate_def g0_def[symmetric])
  moreover have "g2 = g\<lparr>sceneRef := True,
            playerRef := Some (movePlayer noMove (canvasSize g) (Mesh 0 (- 4))),
            bulletsRef := filter (\<lambda>b. \<not> 5 + BULLET_HEIGHT < posY b) (map moveBullet (bulletsRef g)),
            enemiesRef := [], enemyBulletsRef := [], explosions := [], moveRef := noMove,
            running := True, score := 0, lives := 3, gameOver := False\<rparr>"
    by (simp add: g2_def g0_def g1_def handleRestart_def)
  ultimately show ?thesis
    using eff by simp
qed

text \<open>
  Claim C8, at \<open>overGame\<close>, a finished round that the component reaches with two player
  bullets in flight: after Restart the score is 0, the lives are 3, the round is on and
  the enemy collections are empty, but the two player bullets are still there, one step
  further up. The effect empties \<open>enemiesRef.current\<close> and \<open>enemyBulletsRef.current\<close>
  and leaves \<open>bulletsRef.current\<close> as it was.
\<close>

theorem restart_keeps_player_bullets:
  "reachable overGame \<and> gameOver overGame \<and>
   restart overGame = Some (playGame\<lparr>bulletsRef := [Mesh (- 0.575) 4.7, Mesh 0.575 4.7]\<rparr>)"
proof -
  have "restart overGame = Some (playGame\<lparr>bulletsRef := [Mesh (- 0.575) 4.7, Mesh 0.575 4.7]\<rparr>)"
    by (simp add: overGame_def upState_def playGame_def restart_def handleRestart_def effect_def eval_defs)
  with reachable_overGame show ?thesis
    by (simp add: overGame_def)
qed

section \<open>Enemy fire\<close>

text \<open>
  Claim C9 as stated: the enemy bullet is spawned at the position of the enemy that fires.
  The code puts it below the enemy, at \<open>y - ENEMY_HEIGHT / 2 - ENEMY_BULLET_HEIGHT / 2\<close>.
\<close>

theorem enemy_shot_below_enemy_counterexample:
  "enemyBulletsRef (enemyShootInterval 0 fireGame) \<noteq> enemyBulletsRef fireGame @ [enemiesRef fireGame ! 0]"
  by (simp add: fireGame_def playGame_def enemyShootInterval_def randomEnemy_def const_defs)

text \<open>
  Claim C9, amended: when the callback runs with at least one enemy, the enemy at index
  \<open>k\<close> fires, where \<open>k\<close> is the index with \<open>k / n \<le> r < (k + 1) / n\<close> for the random
  number \<open>r\<close> and \<open>n\<close> enemies (so each index is drawn on an interval of the same
  length). If that enemy is below \<open>y = 4\<close>, exactly one enemy bullet is appended, at the
  enemy's \<open>x\<close> and 0.75 below its \<open>y\<close> (\<open>ENEMY_HEIGHT / 2 + ENEMY_BULLET_HEIGHT / 2\<close>);
  otherwise nothing changes.
\<close>

theorem enemy_shot_below_enemy:
  assumes "sceneRef g" "enemiesRef g \<noteq> []" "0 \<le> r" "r < 1"
  shows "\<exists>k < length (enemiesRef g).
           real k / real (length (enemiesRef g)) \<le> r \<and>
           r < (real k + 1) / real (length (enemiesRef g)) \<and>
           enemyShootInterval r g =
             (if posY (enemiesRef g ! k) < 4
              then g\<lparr>enemyBulletsRef := enemyBulletsRef g @
                     [Mesh (posX (enemiesRef g ! k))
                           (posY (enemiesRef g ! k) - ENEMY_HEIGHT / 2 - ENEMY_BULLET_HEIGHT / 2)]\<rparr>
              else g)"
proof -
  define n where "n = length (enemiesRef g)"
  define z where "z = \<lfloor>r * real n\<rfloor>"
  have n: "0 < n" using assms(2) by (simp add: n_def)
  have z0: "0 \<le> z" using assms(3) by (simp add: z_def)
  have "r * real n < real n" using assms(4) n by simp
  then have zn: "z < int n" by (simp add: z_def floor_less_iff)
  have lo: "of_int z \<le> r * real n" by (simp add: z_def)
  have hi: "r * real n < of_int z + 1" by (simp add: z_def)
  define k where "k = nat z"
  have kz: "real k = of_int z" using z0 by (simp add: k_def)
  have kn: "k < n" using z0 zn by (simp add: k_def)
  have a: "real k / real n \<le> r" using lo n by (simp add: kz divide_le_eq)
  have b: "r < (real k + 1) / real n" using hi n by (simp add: kz less_divide_eq)
  have pick: "randomEnemy r (enemiesRef g) = Some (enemiesRef g ! k)"
    using z0 zn by (simp add: randomEnemy_def Let_def n_def[symmetric] z_def[symmetric] k_def)
  have "enemyShootInterval r g =
             (if posY (enemiesRef g ! k) < 4
              then g\<lparr>enemyBulletsRef := enemyBulletsRef g @
                     [Mesh (posX (enemiesRef g ! k))
                           (posY (enemiesRef g ! k) - ENEMY_HEIGHT / 2 - ENEMY_BULLET_HEIGHT / 2)]\<rparr>
              else g)"
    using assms(1,2) by (simp add: enemyShootInterval_def pick)
  with kn a b show ?thesis
    unfolding n_def by blast
qed

theorem enemy_shot_below_enemy_witness:
  "sceneRef fireGame \<and> enemiesRef fireGame \<noteq> [] \<and>
   enemyShootInterval (1 / 2) fireGame = fireGame\<lparr>enemyBulletsRef := [Mesh 1 (9 / 4)]\<rparr>"
proof -
  have h: "sceneRef fireGame" "enemiesRef fireGame \<noteq> []" "(0::real) \<le> 1 / 2" "(1 / 2 :: real) < 1"
    by (simp_all add: fireGame_def playGame_def)
  from enemy_shot_below_enemy[OF h] h(1,2) show ?thesis
    by (auto simp add: fireGame_def playGame_def const_defs)
qed

end
